theory Spec2Isabelle
  imports Main "HOL-Library.Word" "HOL-Library.Sublist"
begin

unbundle bit_operations_syntax

section \<open>The STM32 bootloader driver (stm32.cpp) and its transport\<close>

text \<open>
  The protocol engine of \<^verbatim>\<open>src/stm32loader/stm32.cpp\<close> talks to the device through
  the function pointers of \<^verbatim>\<open>struct port_interface\<close> and reads the wall clock with
  \<^verbatim>\<open>time()\<close>. Both are the environment of the code. The environment is a record of
  scripts: what each successive \<^verbatim>\<open>port->read\<close>, \<^verbatim>\<open>port->write\<close> and
  \<^verbatim>\<open>time\<close> call returns, and a log of every transport call made so far. A call
  that finds its script empty yields \<open>None\<close>: the run is longer than the script, so
  the script doubles as the fuel of the loops that wait for the device.
\<close>

type_synonym u8 = "8 word"
type_synonym u32 = "32 word"

subsection \<open>Constants of stm32.cpp\<close>

definition STM32_ACK :: u8 where "STM32_ACK = 0x79"
definition STM32_NACK :: u8 where "STM32_NACK = 0x1F"
definition STM32_BUSY :: u8 where "STM32_BUSY = 0x76"

definition STM32_CMD_INIT :: u8 where "STM32_CMD_INIT = 0x7F"
definition STM32_CMD_GET :: u8 where "STM32_CMD_GET = 0x00"
definition STM32_CMD_GVR :: u8 where "STM32_CMD_GVR = 0x01"
definition STM32_CMD_GID :: u8 where "STM32_CMD_GID = 0x02"
definition STM32_CMD_RM :: u8 where "STM32_CMD_RM = 0x11"
definition STM32_CMD_GO :: u8 where "STM32_CMD_GO = 0x21"
definition STM32_CMD_WM :: u8 where "STM32_CMD_WM = 0x31"
definition STM32_CMD_WM_NS :: u8 where "STM32_CMD_WM_NS = 0x32"
definition STM32_CMD_ER :: u8 where "STM32_CMD_ER = 0x43"
definition STM32_CMD_EE :: u8 where "STM32_CMD_EE = 0x44"
definition STM32_CMD_EE_NS :: u8 where "STM32_CMD_EE_NS = 0x45"
definition STM32_CMD_WP :: u8 where "STM32_CMD_WP = 0x63"
definition STM32_CMD_WP_NS :: u8 where "STM32_CMD_WP_NS = 0x64"
definition STM32_CMD_UW :: u8 where "STM32_CMD_UW = 0x73"
definition STM32_CMD_UW_NS :: u8 where "STM32_CMD_UW_NS = 0x74"
definition STM32_CMD_RP :: u8 where "STM32_CMD_RP = 0x82"
definition STM32_CMD_RP_NS :: u8 where "STM32_CMD_RP_NS = 0x83"
definition STM32_CMD_UR :: u8 where "STM32_CMD_UR = 0x92"
definition STM32_CMD_UR_NS :: u8 where "STM32_CMD_UR_NS = 0x93"
definition STM32_CMD_CRC :: u8 where "STM32_CMD_CRC = 0xA1"
definition STM32_CMD_ERR :: u8 where "STM32_CMD_ERR = 0xFF"

definition STM32_RESYNC_TIMEOUT :: int where "STM32_RESYNC_TIMEOUT = 35"
definition STM32_MASSERASE_TIMEOUT :: int where "STM32_MASSERASE_TIMEOUT = 35"
definition STM32_PAGEERASE_TIMEOUT :: int where "STM32_PAGEERASE_TIMEOUT = 5"
definition STM32_BLKWRITE_TIMEOUT :: int where "STM32_BLKWRITE_TIMEOUT = 1"

definition STM32_CMD_GET_LENGTH :: nat where "STM32_CMD_GET_LENGTH = 17"

subsection \<open>Types of the missing headers\<close>

text \<open>
  Modelled from the spec: \<^verbatim>\<open>port.h\<close> and \<^verbatim>\<open>stm32.h\<close> are not among the sources.
  The result codes are the ones stm32.cpp and the serial port return; the port flags are
  the capability names of the transport contract, kept as a set of names because their bit
  values are in the missing header (\<^verbatim>\<open>port->flags & PORT_RETRY\<close> is membership).
\<close>

datatype port_err_t = PORT_ERR_OK | PORT_ERR_TIMEDOUT | PORT_ERR_UNKNOWN

datatype stm32_err_t = STM32_ERR_OK | STM32_ERR_UNKNOWN | STM32_ERR_NACK | STM32_ERR_NO_CMD

datatype port_flag = PORT_BYTE | PORT_GVR_ETX | PORT_CMD_INIT | PORT_RETRY | PORT_STRETCH_W

datatype dev_flag = F_NO_ME | F_OBLL | F_PEMPTY

record port_interface =
  flags :: "port_flag set"

record stm32_cmd =
  get :: u8
  gvr :: u8
  gid :: u8
  rm :: u8
  go :: u8
  wm :: u8
  er :: u8
  wp :: u8
  uw :: u8
  rp :: u8
  ur :: u8
  crc :: u8

record stm32_dev =
  dev_id :: "16 word"
  ram_start :: u32
  ram_end :: u32
  fl_start :: u32
  fl_end :: u32
  fl_pps :: u32
  fl_ps :: "u32 list"
  opt_start :: u32
  opt_end :: u32
  mem_start :: u32
  mem_end :: u32
  dev_flags :: "dev_flag set"

record stm32_t =
  port :: port_interface
  bl_version :: u8
  version :: u8
  option1 :: u8
  option2 :: u8
  pid :: "16 word"
  cmd :: stm32_cmd
  dev :: stm32_dev

subsection \<open>The environment: transport scripts, clock and log\<close>

datatype rd_result = Rd_ok "u8 list" | Rd_timedout | Rd_error

datatype event = EvWrite "u8 list" | EvRead nat rd_result

record world =
  rx :: "rd_result list"
  wx :: "port_err_t list"
  clock :: "int list"
  trace :: "event list"

text \<open>
  \<^verbatim>\<open>port->read(port, buf, n)\<close>: all or nothing. \<open>Rd_ok bs\<close> answers a read of
  exactly \<open>length bs\<close> bytes; a script entry of another length does not describe this
  run (\<open>None\<close>). A failed read leaves the caller's buffer as it was: the code never
  looks at a buffer after a failed read.
\<close>

definition port_read :: "nat \<Rightarrow> world \<Rightarrow> ((port_err_t \<times> u8 list) \<times> world) option" where
  "port_read n w =
     (case rx w of
        [] \<Rightarrow> None
      | r # rest \<Rightarrow>
          (let w' = w\<lparr>rx := rest, trace := trace w @ [EvRead n r]\<rparr> in
           case r of
             Rd_ok bs \<Rightarrow> if length bs = n then Some ((PORT_ERR_OK, bs), w') else None
           | Rd_timedout \<Rightarrow> Some ((PORT_ERR_TIMEDOUT, []), w')
           | Rd_error \<Rightarrow> Some ((PORT_ERR_UNKNOWN, []), w')))"

definition port_write :: "u8 list \<Rightarrow> world \<Rightarrow> (port_err_t \<times> world) option" where
  "port_write bs w =
     (case wx w of
        [] \<Rightarrow> None
      | e # rest \<Rightarrow> Some (e, w\<lparr>wx := rest, trace := trace w @ [EvWrite bs]\<rparr>))"

definition time_now :: "world \<Rightarrow> (int \<times> world) option" where
  "time_now w = (case clock w of [] \<Rightarrow> None | t # rest \<Rightarrow> Some (t, w\<lparr>clock := rest\<rparr>))"

fun writes :: "event list \<Rightarrow> u8 list list" where
  "writes [] = []"
| "writes (EvWrite bs # es) = bs # writes es"
| "writes (EvRead n r # es) = writes es"

subsection \<open>Acknowledgement and command framing\<close>

text \<open>
  The \<^verbatim>\<open>do ... while (1)\<close> loop of \<^verbatim>\<open>stm32_get_ack_timeout\<close>. \<^verbatim>\<open>continue\<close> jumps to
  the loop test, which is constant true, so it starts the next iteration. Every iteration
  consumes one entry of the read script.
\<close>

function get_ack_loop :: "int \<Rightarrow> int \<Rightarrow> world \<Rightarrow> (stm32_err_t \<times> world) option" where
  "get_ack_loop timeout t0 w =
     (case port_read 1 w of
        None \<Rightarrow> None
      | Some ((p_err, bs), w1) \<Rightarrow>
          (if p_err = PORT_ERR_TIMEDOUT \<and> timeout \<noteq> 0 then
             (case time_now w1 of
                None \<Rightarrow> None
              | Some (t1, w2) \<Rightarrow>
                  if t1 < t0 + timeout then get_ack_loop timeout t0 w2
                  else Some (STM32_ERR_UNKNOWN, w2))
           else if p_err \<noteq> PORT_ERR_OK then Some (STM32_ERR_UNKNOWN, w1)
           else if hd bs = STM32_ACK then Some (STM32_ERR_OK, w1)
           else if hd bs = STM32_NACK then Some (STM32_ERR_NACK, w1)
           else if hd bs \<noteq> STM32_BUSY then Some (STM32_ERR_UNKNOWN, w1)
           else get_ack_loop timeout t0 w1))"
  by pat_completeness auto
termination
  by (relation "measure (\<lambda>(timeout, t0, w). length (rx w))")
     (auto simp: port_read_def time_now_def Let_def
           split: list.splits rd_result.splits if_splits)

declare get_ack_loop.simps [simp del]

text \<open>\<^verbatim>\<open>t0\<close> is only assigned, and only used, when the timeout is not zero.\<close>

definition stm32_get_ack_timeout ::
  "stm32_t \<Rightarrow> int \<Rightarrow> world \<Rightarrow> (stm32_err_t \<times> world) option" where
  "stm32_get_ack_timeout stm timeout0 w =
     (let timeout = (if PORT_RETRY \<notin> flags (port stm) then 0 else timeout0) in
      if timeout \<noteq> 0 then
        (case time_now w of
           None \<Rightarrow> None
         | Some (t0, w0) \<Rightarrow> get_ack_loop timeout t0 w0)
      else get_ack_loop timeout 0 w)"

definition stm32_get_ack :: "stm32_t \<Rightarrow> world \<Rightarrow> (stm32_err_t \<times> world) option" where
  "stm32_get_ack stm w = stm32_get_ack_timeout stm 0 w"

definition stm32_send_command_timeout ::
  "stm32_t \<Rightarrow> u8 \<Rightarrow> int \<Rightarrow> world \<Rightarrow> (stm32_err_t \<times> world) option" where
  "stm32_send_command_timeout stm c timeout w =
     (case port_write [c, c XOR 0xFF] w of
        None \<Rightarrow> None
      | Some (p_err, w1) \<Rightarrow>
          if p_err \<noteq> PORT_ERR_OK then Some (STM32_ERR_UNKNOWN, w1)
          else
            (case stm32_get_ack_timeout stm timeout w1 of
               None \<Rightarrow> None
             | Some (s_err, w2) \<Rightarrow>
                 if s_err = STM32_ERR_OK then Some (STM32_ERR_OK, w2)
                 else Some (STM32_ERR_UNKNOWN, w2)))"

definition stm32_send_command :: "stm32_t \<Rightarrow> u8 \<Rightarrow> world \<Rightarrow> (stm32_err_t \<times> world) option" where
  "stm32_send_command stm c w = stm32_send_command_timeout stm c 0 w"

text \<open>Storing \<open>bs\<close> into a buffer from index \<open>k\<close> on, one \<^verbatim>\<open>buf[k + j] = bs[j]\<close>
  at a time.\<close>

fun list_update_seq :: "'a list \<Rightarrow> nat \<Rightarrow> 'a list \<Rightarrow> 'a list" where
  "list_update_seq buf k [] = buf"
| "list_update_seq buf k (b # bs) = list_update_seq (buf[k := b]) (k + 1) bs"

subsection \<open>Read and write memory\<close>

text \<open>The five bytes \<^verbatim>\<open>buf[0..4]\<close> that carry an address: four bytes, most significant
  first, and their XOR.\<close>

definition addr_frame :: "u32 \<Rightarrow> u8 list" where
  "addr_frame address =
     (let b0 = (ucast (drop_bit 24 address) :: u8);
          b1 = (ucast (drop_bit 16 address AND 0xFF) :: u8);
          b2 = (ucast (drop_bit 8 address AND 0xFF) :: u8);
          b3 = (ucast (address AND 0xFF) :: u8)
      in [b0, b1, b2, b3, b0 XOR b1 XOR b2 XOR b3])"

text \<open>
  \<^verbatim>\<open>stm32_read_memory\<close>. \<open>data\<close> is the caller's buffer; it comes back with its first
  \<open>len\<close> bytes replaced when the read succeeds. \<^verbatim>\<open>len - 1\<close> is passed as the
  \<^verbatim>\<open>uint8_t\<close> command byte.
\<close>

definition stm32_read_memory ::
  "stm32_t \<Rightarrow> u32 \<Rightarrow> u8 list \<Rightarrow> u32 \<Rightarrow> world \<Rightarrow> ((stm32_err_t \<times> u8 list) \<times> world) option" where
  "stm32_read_memory stm address data len w =
     (if len = 0 then Some ((STM32_ERR_OK, data), w)
      else if len > 256 then Some ((STM32_ERR_UNKNOWN, data), w)
      else if rm (cmd stm) = STM32_CMD_ERR then Some ((STM32_ERR_NO_CMD, data), w)
      else
        (case stm32_send_command stm (rm (cmd stm)) w of
           None \<Rightarrow> None
         | Some (e1, w1) \<Rightarrow>
             if e1 \<noteq> STM32_ERR_OK then Some ((STM32_ERR_UNKNOWN, data), w1)
             else
               (case port_write (addr_frame address) w1 of
                  None \<Rightarrow> None
                | Some (p2, w2) \<Rightarrow>
                    if p2 \<noteq> PORT_ERR_OK then Some ((STM32_ERR_UNKNOWN, data), w2)
                    else
                      (case stm32_get_ack stm w2 of
                         None \<Rightarrow> None
                       | Some (e3, w3) \<Rightarrow>
                           if e3 \<noteq> STM32_ERR_OK then Some ((STM32_ERR_UNKNOWN, data), w3)
                           else
                             (case stm32_send_command stm (ucast (len - 1)) w3 of
                                None \<Rightarrow> None
                              | Some (e4, w4) \<Rightarrow>
                                  if e4 \<noteq> STM32_ERR_OK
                                  then Some ((STM32_ERR_UNKNOWN, data), w4)
                                  else
                                    (case port_read (unat len) w4 of
                                       None \<Rightarrow> None
                                     | Some ((p5, bs), w5) \<Rightarrow>
                                         if p5 \<noteq> PORT_ERR_OK
                                         then Some ((STM32_ERR_UNKNOWN, data), w5)
                                         else Some ((STM32_ERR_OK,
                                                     bs @ drop (unat len) data), w5)))))))"

text \<open>
  The two loops of \<^verbatim>\<open>stm32_write_memory\<close> that fill \<^verbatim>\<open>buf\<close> and accumulate the
  checksum \<^verbatim>\<open>cs\<close>: the copy loop \<^verbatim>\<open>for (i = 0; i < len; i++)\<close> and the padding loop
  \<^verbatim>\<open>for (i = len; i < aligned_len; i++)\<close>. The state of each loop is \<open>(cs, buf)\<close>.
\<close>

function wm_copy_loop :: "u8 list \<Rightarrow> nat \<Rightarrow> nat \<Rightarrow> u8 \<times> u8 list \<Rightarrow> u8 \<times> u8 list" where
  "wm_copy_loop data len i (cs, buf) =
     (if i < len
      then wm_copy_loop data len (i + 1) (cs XOR data ! i, buf[i + 1 := data ! i])
      else (cs, buf))"
  by pat_completeness auto
termination
  by (relation "measure (\<lambda>(data, len, i, s). len - i)") auto

function wm_pad_loop :: "nat \<Rightarrow> nat \<Rightarrow> u8 \<times> u8 list \<Rightarrow> u8 \<times> u8 list" where
  "wm_pad_loop aligned_len i (cs, buf) =
     (if i < aligned_len
      then wm_pad_loop aligned_len (i + 1) (cs XOR 0xFF, buf[i + 1 := 0xFF])
      else (cs, buf))"
  by pat_completeness auto
termination
  by (relation "measure (\<lambda>(aligned_len, i, s). aligned_len - i)") auto

declare wm_copy_loop.simps [simp del] wm_pad_loop.simps [simp del]

text \<open>
  The data frame handed to \<^verbatim>\<open>port->write(port, buf, aligned_len + 2)\<close>. \<open>buf\<close> is the
  258-byte local array as the address stage left it; \<^verbatim>\<open>aligned_len\<close> is
  \<^verbatim>\<open>(len + 3) & ~3\<close> on \<^verbatim>\<open>unsigned int\<close>, and \<^verbatim>\<open>aligned_len - 1\<close> is truncated to
  \<^verbatim>\<open>uint8_t\<close> for \<^verbatim>\<open>cs\<close> and \<^verbatim>\<open>buf[0]\<close>.
\<close>

definition wm_aligned_len :: "u32 \<Rightarrow> u32" where
  "wm_aligned_len len = (len + 3) AND NOT 3"

definition wm_data_frame :: "u8 list \<Rightarrow> u8 list \<Rightarrow> u32 \<Rightarrow> u8 list" where
  "wm_data_frame buf data len =
     (let aligned_len = wm_aligned_len len;
          cs = (ucast (aligned_len - 1) :: u8);
          buf0 = buf[0 := ucast (aligned_len - 1)];
          (cs1, buf1) = wm_copy_loop data (unat len) 0 (cs, buf0);
          (cs2, buf2) = wm_pad_loop (unat aligned_len) (unat len) (cs1, buf1);
          buf3 = buf2[unat aligned_len + 1 := cs2]
      in take (unat aligned_len + 2) buf3)"

text \<open>
  \<^verbatim>\<open>stm32_write_memory\<close>. The local \<^verbatim>\<open>buf[256 + 2]\<close> is not initialised in C; here it
  starts as zeros, and every byte that is sent is written first. The stretch warning on a
  failed final acknowledgement only prints.
\<close>

definition stm32_write_memory ::
  "stm32_t \<Rightarrow> u32 \<Rightarrow> u8 list \<Rightarrow> u32 \<Rightarrow> world \<Rightarrow> (stm32_err_t \<times> world) option" where
  "stm32_write_memory stm address data len w =
     (if len = 0 then Some (STM32_ERR_OK, w)
      else if len > 256 then Some (STM32_ERR_UNKNOWN, w)
      else if address AND 0x3 \<noteq> 0 then Some (STM32_ERR_UNKNOWN, w)
      else if wm (cmd stm) = STM32_CMD_ERR then Some (STM32_ERR_NO_CMD, w)
      else
        (case stm32_send_command stm (wm (cmd stm)) w of
           None \<Rightarrow> None
         | Some (e1, w1) \<Rightarrow>
             if e1 \<noteq> STM32_ERR_OK then Some (STM32_ERR_UNKNOWN, w1)
             else
               (let buf = list_update_seq (replicate 258 0) 0 (addr_frame address) in
                case port_write (take 5 buf) w1 of
                  None \<Rightarrow> None
                | Some (p2, w2) \<Rightarrow>
                    if p2 \<noteq> PORT_ERR_OK then Some (STM32_ERR_UNKNOWN, w2)
                    else
                      (case stm32_get_ack stm w2 of
                         None \<Rightarrow> None
                       | Some (e3, w3) \<Rightarrow>
                           if e3 \<noteq> STM32_ERR_OK then Some (STM32_ERR_UNKNOWN, w3)
                           else
                             (case port_write (wm_data_frame buf data len) w3 of
                                None \<Rightarrow> None
                              | Some (p4, w4) \<Rightarrow>
                                  if p4 \<noteq> PORT_ERR_OK then Some (STM32_ERR_UNKNOWN, w4)
                                  else
                                    (case stm32_get_ack_timeout stm STM32_BLKWRITE_TIMEOUT w4 of
                                       None \<Rightarrow> None
                                     | Some (s_err, w5) \<Rightarrow>
                                         if s_err \<noteq> STM32_ERR_OK
                                         then Some (STM32_ERR_UNKNOWN, w5)
                                         else Some (STM32_ERR_OK, w5)))))))"


subsection \<open>Resynchronisation and variable-length replies\<close>

text \<open>
  The \<^verbatim>\<open>while (t1 < t0 + STM32_RESYNC_TIMEOUT)\<close> loop of \<^verbatim>\<open>stm32_resync\<close>. Every
  iteration writes the invalid command pair, so it consumes one entry of the write script;
  \<^verbatim>\<open>usleep\<close> only waits. An iteration that does not return re-reads the clock.
\<close>

function resync_loop :: "int \<Rightarrow> int \<Rightarrow> world \<Rightarrow> (stm32_err_t \<times> world) option" where
  "resync_loop t0 t1 w =
     (if t1 < t0 + STM32_RESYNC_TIMEOUT then
        (case port_write [STM32_CMD_ERR, STM32_CMD_ERR XOR 0xFF] w of
           None \<Rightarrow> None
         | Some (p_err, w1) \<Rightarrow>
             if p_err \<noteq> PORT_ERR_OK then
               (case time_now w1 of
                  None \<Rightarrow> None
                | Some (t1', w2) \<Rightarrow> resync_loop t0 t1' w2)
             else
               (case port_read 1 w1 of
                  None \<Rightarrow> None
                | Some ((p_err2, bs), w2) \<Rightarrow>
                    if p_err2 \<noteq> PORT_ERR_OK then
                      (case time_now w2 of
                         None \<Rightarrow> None
                       | Some (t1', w3) \<Rightarrow> resync_loop t0 t1' w3)
                    else if hd bs = STM32_NACK then Some (STM32_ERR_OK, w2)
                    else
                      (case time_now w2 of
                         None \<Rightarrow> None
                       | Some (t1', w3) \<Rightarrow> resync_loop t0 t1' w3)))
      else Some (STM32_ERR_UNKNOWN, w))"
  by pat_completeness auto
termination
  by (relation "measure (\<lambda>(t0, t1, w). length (wx w))")
     (auto simp: port_read_def port_write_def time_now_def Let_def
           split: list.splits rd_result.splits if_splits)

declare resync_loop.simps [simp del]

definition stm32_resync :: "stm32_t \<Rightarrow> world \<Rightarrow> (stm32_err_t \<times> world) option" where
  "stm32_resync stm w =
     (case time_now w of
        None \<Rightarrow> None
      | Some (t0, w0) \<Rightarrow> resync_loop t0 t0 w0)"

text \<open>
  The block \<^verbatim>\<open>if (p_err != PORT_ERR_OK) { ... }\<close> of \<^verbatim>\<open>stm32_guess_len_cmd\<close>, entered
  only after a failed first read: resync, send the command again, read one byte into
  \<^verbatim>\<open>data[0]\<close>. \<open>Inl\<close> is an early \<^verbatim>\<open>return\<close>, \<open>Inr\<close> falls through with the buffer.
\<close>

definition guess_len_restart ::
  "stm32_t \<Rightarrow> u8 \<Rightarrow> u8 list \<Rightarrow> world \<Rightarrow> ((stm32_err_t + u8 list) \<times> world) option" where
  "guess_len_restart stm c data w =
     (case stm32_resync stm w of
        None \<Rightarrow> None
      | Some (e1, w1) \<Rightarrow>
          if e1 \<noteq> STM32_ERR_OK then Some (Inl STM32_ERR_UNKNOWN, w1)
          else
            (case stm32_send_command stm c w1 of
               None \<Rightarrow> None
             | Some (e2, w2) \<Rightarrow>
                 if e2 \<noteq> STM32_ERR_OK then Some (Inl STM32_ERR_UNKNOWN, w2)
                 else
                   (case port_read 1 w2 of
                      None \<Rightarrow> None
                    | Some ((p3, bs), w3) \<Rightarrow>
                        if p3 \<noteq> PORT_ERR_OK then Some (Inl STM32_ERR_UNKNOWN, w3)
                        else Some (Inr (list_update_seq data 0 bs), w3))))"

text \<open>
  \<^verbatim>\<open>stm32_guess_len_cmd\<close>. \<open>data\<close> is the caller's buffer (257 bytes in
  \<^verbatim>\<open>stm32_init\<close>) and comes back updated; \<^verbatim>\<open>len\<close> is \<^verbatim>\<open>unsigned int\<close>.
\<close>

definition stm32_guess_len_cmd ::
  "stm32_t \<Rightarrow> u8 \<Rightarrow> u8 list \<Rightarrow> u32 \<Rightarrow> world \<Rightarrow> ((stm32_err_t \<times> u8 list) \<times> world) option" where
  "stm32_guess_len_cmd stm c data len w =
     (case stm32_send_command stm c w of
        None \<Rightarrow> None
      | Some (e1, w1) \<Rightarrow>
          if e1 \<noteq> STM32_ERR_OK then Some ((STM32_ERR_UNKNOWN, data), w1)
          else if PORT_BYTE \<in> flags (port stm) then
            (case port_read 1 w1 of
               None \<Rightarrow> None
             | Some ((p2, bs), w2) \<Rightarrow>
                 if p2 \<noteq> PORT_ERR_OK then Some ((STM32_ERR_UNKNOWN, data), w2)
                 else
                   (let data1 = list_update_seq data 0 bs;
                        len1 = (ucast (data1 ! 0) :: u32)
                    in case port_read (unat (len1 + 1)) w2 of
                         None \<Rightarrow> None
                       | Some ((p3, bs'), w3) \<Rightarrow>
                           if p3 \<noteq> PORT_ERR_OK then Some ((STM32_ERR_UNKNOWN, data1), w3)
                           else Some ((STM32_ERR_OK, list_update_seq data1 1 bs'), w3)))
          else
            (case port_read (unat (len + 2)) w1 of
               None \<Rightarrow> None
             | Some ((p_err, bs), w2) \<Rightarrow>
                 (let data1 = (if p_err = PORT_ERR_OK then list_update_seq data 0 bs else data)
                  in if p_err = PORT_ERR_OK \<and> len = ucast (data1 ! 0)
                     then Some ((STM32_ERR_OK, data1), w2)
                     else
                       (case (if p_err \<noteq> PORT_ERR_OK then guess_len_restart stm c data1 w2
                              else Some (Inr data1, w2)) of
                          None \<Rightarrow> None
                        | Some (Inl e, w3) \<Rightarrow> Some ((e, data1), w3)
                        | Some (Inr data2, w3) \<Rightarrow>
                            (case stm32_resync stm w3 of
                               None \<Rightarrow> None
                             | Some (e4, w4) \<Rightarrow>
                                 if e4 \<noteq> STM32_ERR_OK
                                 then Some ((STM32_ERR_UNKNOWN, data2), w4)
                                 else
                                   (let len2 = (ucast (data2 ! 0) :: u32)
                                    in case stm32_send_command stm c w4 of
                                         None \<Rightarrow> None
                                       | Some (e5, w5) \<Rightarrow>
                                           if e5 \<noteq> STM32_ERR_OK
                                           then Some ((STM32_ERR_UNKNOWN, data2), w5)
                                           else
                                             (case port_read (unat (len2 + 2)) w5 of
                                                None \<Rightarrow> None
                                              | Some ((p6, bs6), w6) \<Rightarrow>
                                                  if p6 \<noteq> PORT_ERR_OK
                                                  then Some ((STM32_ERR_UNKNOWN, data2), w6)
                                                  else Some ((STM32_ERR_OK,
                                                       list_update_seq data2 0 bs6), w6))))))))"

subsection \<open>Parsing the GET reply\<close>

text \<open>The macro \<^verbatim>\<open>newer(prev, a)\<close>: find the newer command by the higher code.\<close>

definition newer :: "u8 \<Rightarrow> u8 \<Rightarrow> u8" where
  "newer prev a = (if prev = STM32_CMD_ERR then a else if prev > a then prev else a)"

text \<open>\<^verbatim>\<open>memset(stm->cmd, STM32_CMD_ERR, sizeof(stm32_cmd_t))\<close>.\<close>

definition cmd_unset :: stm32_cmd where
  "cmd_unset =
     \<lparr>get = STM32_CMD_ERR, gvr = STM32_CMD_ERR, gid = STM32_CMD_ERR, rm = STM32_CMD_ERR,
      go = STM32_CMD_ERR, wm = STM32_CMD_ERR, er = STM32_CMD_ERR, wp = STM32_CMD_ERR,
      uw = STM32_CMD_ERR, rp = STM32_CMD_ERR, ur = STM32_CMD_ERR, crc = STM32_CMD_ERR\<rparr>"

text \<open>The \<^verbatim>\<open>switch (val)\<close> of the GET loop; the default branch only prints.\<close>

definition get_switch :: "u8 \<Rightarrow> stm32_cmd \<Rightarrow> stm32_cmd" where
  "get_switch val c =
     (if val = STM32_CMD_GET then c\<lparr>get := val\<rparr>
      else if val = STM32_CMD_GVR then c\<lparr>gvr := val\<rparr>
      else if val = STM32_CMD_GID then c\<lparr>gid := val\<rparr>
      else if val = STM32_CMD_RM then c\<lparr>rm := val\<rparr>
      else if val = STM32_CMD_GO then c\<lparr>go := val\<rparr>
      else if val = STM32_CMD_WM \<or> val = STM32_CMD_WM_NS then c\<lparr>wm := newer (wm c) val\<rparr>
      else if val = STM32_CMD_ER \<or> val = STM32_CMD_EE \<or> val = STM32_CMD_EE_NS
        then c\<lparr>er := newer (er c) val\<rparr>
      else if val = STM32_CMD_WP \<or> val = STM32_CMD_WP_NS then c\<lparr>wp := newer (wp c) val\<rparr>
      else if val = STM32_CMD_UW \<or> val = STM32_CMD_UW_NS then c\<lparr>uw := newer (uw c) val\<rparr>
      else if val = STM32_CMD_RP \<or> val = STM32_CMD_RP_NS then c\<lparr>rp := newer (rp c) val\<rparr>
      else if val = STM32_CMD_UR \<or> val = STM32_CMD_UR_NS then c\<lparr>ur := newer (ur c) val\<rparr>
      else if val = STM32_CMD_CRC then c\<lparr>crc := newer (crc c) val\<rparr>
      else c)"

text \<open>
  The loop \<^verbatim>\<open>for (i = 1; i < len; i++) { val = buf[i + 1]; switch (val) ... }\<close> of
  \<^verbatim>\<open>stm32_init\<close>, and the statements around it: \<^verbatim>\<open>len\<close> is a \<^verbatim>\<open>uint8_t\<close> holding
  \<^verbatim>\<open>buf[0] + 1\<close>, so it wraps to 0 when the reply announces 255; \<open>buf\<close> is the 257-byte
  buffer filled by \<^verbatim>\<open>stm32_guess_len_cmd\<close>, and the command table starts as
  \<open>cmd_unset\<close>.
\<close>

function get_loop :: "u8 list \<Rightarrow> nat \<Rightarrow> nat \<Rightarrow> stm32_cmd \<Rightarrow> stm32_cmd" where
  "get_loop buf len i c =
     (if i < len then get_loop buf len (i + 1) (get_switch (buf ! (i + 1)) c) else c)"
  by pat_completeness auto
termination
  by (relation "measure (\<lambda>(buf, len, i, c). len - i)") auto

declare get_loop.simps [simp del]

definition stm32_init_get_reply :: "u8 list \<Rightarrow> stm32_cmd" where
  "stm32_init_get_reply buf = get_loop buf (unat (buf ! 0 + 1)) 1 cmd_unset"


subsection \<open>Address and page utilities\<close>

text \<open>
  These functions of the main file read the device record through the global
  \<^verbatim>\<open>stm->dev\<close>; here the record is an argument. \<^verbatim>\<open>fl_ps\<close> is a zero-terminated
  array and \<^verbatim>\<open>psize\<close> a pointer into it, kept as an index; a read past the end of the
  list gives 0, as the terminator does. \<^verbatim>\<open>page\<close> is a C \<^verbatim>\<open>int\<close> of 32 bits: incrementing
  it at \<^verbatim>\<open>INT_MAX\<close> is undefined, and the functions then have no result (\<open>None\<close>).
\<close>

definition INT_MAX :: int where
  "INT_MAX = 2147483647"

definition is_addr_in_flash :: "stm32_dev \<Rightarrow> u32 \<Rightarrow> bool" where
  "is_addr_in_flash d addr \<longleftrightarrow> addr \<ge> fl_start d \<and> addr < fl_end d"

definition ps_at :: "u32 list \<Rightarrow> nat \<Rightarrow> u32" where
  "ps_at ps k = (if k < length ps then ps ! k else 0)"

text \<open>\<^verbatim>\<open>if (psize[1]) psize++;\<close>\<close>

definition ps_next :: "u32 list \<Rightarrow> nat \<Rightarrow> nat" where
  "ps_next ps k = (if ps_at ps (k + 1) \<noteq> 0 then k + 1 else k)"

text \<open>
  The loop \<^verbatim>\<open>while (addr >= psize[0]) { addr -= psize[0]; page++; if (psize[1]) psize++; }\<close>
  shared by the floor and the ceil function. It does not end when \<^verbatim>\<open>psize[0]\<close> is 0,
  and \<^verbatim>\<open>page++\<close> overflows at \<^verbatim>\<open>INT_MAX\<close>: both give \<open>None\<close>.
\<close>

partial_function (option) page_walk :: "u32 list \<Rightarrow> nat \<Rightarrow> u32 \<Rightarrow> int \<Rightarrow> (u32 \<times> int) option" where
  "page_walk ps k addr page =
     (if addr \<ge> ps_at ps k
      then (if page \<ge> INT_MAX then None
            else page_walk ps (ps_next ps k) (addr - ps_at ps k) (page + 1))
      else Some (addr, page))"

definition flash_addr_to_page_floor :: "stm32_dev \<Rightarrow> u32 \<Rightarrow> int option" where
  "flash_addr_to_page_floor d addr =
     (if \<not> is_addr_in_flash d addr then Some 0
      else
        (case page_walk (fl_ps d) 0 (addr - fl_start d) 0 of
           None \<Rightarrow> None
         | Some (addr', page) \<Rightarrow> Some page))"

definition flash_addr_to_page_ceil :: "stm32_dev \<Rightarrow> u32 \<Rightarrow> int option" where
  "flash_addr_to_page_ceil d addr =
     (if \<not> (addr \<ge> fl_start d \<and> addr \<le> fl_end d) then Some 0
      else
        (case page_walk (fl_ps d) 0 (addr - fl_start d) 0 of
           None \<Rightarrow> None
         | Some (addr', page) \<Rightarrow>
             if addr' \<noteq> 0 then (if page \<ge> INT_MAX then None else Some (page + 1))
             else Some page))"

text \<open>The loop \<^verbatim>\<open>for (i = 0; i < page; i++) { addr += psize[0]; if (psize[1]) psize++; }\<close>.\<close>

function page_to_addr_loop :: "u32 list \<Rightarrow> int \<Rightarrow> int \<Rightarrow> nat \<Rightarrow> u32 \<Rightarrow> u32" where
  "page_to_addr_loop ps page i k addr =
     (if i < page
      then page_to_addr_loop ps page (i + 1) (ps_next ps k) (addr + ps_at ps k)
      else addr)"
  by pat_completeness auto
termination
  by (relation "measure (\<lambda>(ps, page, i, k, addr). nat (page - i))") auto

declare page_to_addr_loop.simps [simp del]

definition flash_page_to_addr :: "stm32_dev \<Rightarrow> int \<Rightarrow> u32" where
  "flash_page_to_addr d page = page_to_addr_loop (fl_ps d) page 0 0 (fl_start d)"

subsection \<open>Erase\<close>











subsection \<open>Host-side CRC\<close>

definition CRCPOLY_BE :: u32 where "CRCPOLY_BE = 0x04c11db7"
definition CRC_MSBMASK :: u32 where "CRC_MSBMASK = 0x80000000"
definition CRC_INIT_VALUE :: u32 where "CRC_INIT_VALUE = 0xFFFFFFFF"

text \<open>The inner loop \<^verbatim>\<open>for (i = 0; i < 32; i++)\<close> of \<^verbatim>\<open>stm32_sw_crc\<close>, and its
  body \<^verbatim>\<open>if (crc & CRC_MSBMASK) crc = (crc << 1) ^ CRCPOLY_BE; else crc = (crc << 1);\<close>.\<close>

definition crc_shift :: "u32 \<Rightarrow> u32" where
  "crc_shift crcv =
     (if crcv AND CRC_MSBMASK \<noteq> 0 then push_bit 1 crcv XOR CRCPOLY_BE else push_bit 1 crcv)"

function crc_bit_loop :: "nat \<Rightarrow> u32 \<Rightarrow> u32" where
  "crc_bit_loop i crcv = (if i < 32 then crc_bit_loop (i + 1) (crc_shift crcv) else crcv)"
  by pat_completeness auto
termination
  by (relation "measure (\<lambda>(i, crcv). 32 - i)") auto

text \<open>
  The outer loop \<^verbatim>\<open>while (len)\<close>: four bytes are read through \<^verbatim>\<open>*buf++\<close> and
  \<^verbatim>\<open>len -= 4\<close>. The loop is entered only with \<^verbatim>\<open>len\<close> a multiple of 4, so the
  subtraction never wraps; \<open>buf\<close> is the rest of the buffer from the pointer on.
\<close>

function crc_word_loop :: "u32 \<Rightarrow> u8 list \<Rightarrow> nat \<Rightarrow> u32" where
  "crc_word_loop crcv buf len =
     (if len \<noteq> 0 then
        (let data = (ucast (buf ! 0) :: u32) OR push_bit 8 (ucast (buf ! 1))
                    OR push_bit 16 (ucast (buf ! 2)) OR push_bit 24 (ucast (buf ! 3))
         in crc_word_loop (crc_bit_loop 0 (crcv XOR data)) (drop 4 buf) (len - 4))
      else crcv)"
  by pat_completeness auto
termination
  by (relation "measure (\<lambda>(crcv, buf, len). len)") auto

declare crc_bit_loop.simps [simp del] crc_word_loop.simps [simp del]

definition stm32_sw_crc :: "u32 \<Rightarrow> u8 list \<Rightarrow> u32 \<Rightarrow> u32" where
  "stm32_sw_crc crcv buf len =
     (if len AND 0x3 \<noteq> 0 then 0 else crc_word_loop crcv buf (unat len))"


subsection \<open>A concrete session and device\<close>

text \<open>An STM32F1 medium-density part (product ID 0x410, 1 KiB pages) behind the serial port
  of this repository, whose flags are \<^verbatim>\<open>PORT_BYTE | PORT_GVR_ETX | PORT_CMD_INIT | PORT_RETRY\<close>,
  and a device that acknowledges three times.\<close>

definition ex_dev :: stm32_dev where
  "ex_dev = \<lparr>dev_id = 0x410, ram_start = 0x20000200, ram_end = 0x20005000,
     fl_start = 0x08000000, fl_end = 0x08020000, fl_pps = 4, fl_ps = [0x400, 0],
     opt_start = 0x1FFFF800, opt_end = 0x1FFFF80F, mem_start = 0x1FFFF000, mem_end = 0x1FFFF800,
     dev_flags = {}\<rparr>"

definition ex_cmd :: stm32_cmd where
  "ex_cmd = \<lparr>get = 0x00, gvr = 0x01, gid = 0x02, rm = 0x11, go = 0x21, wm = 0x31, er = 0x43,
     wp = 0x63, uw = 0x73, rp = 0x82, ur = 0x92, crc = 0xFF\<rparr>"

definition ex_stm :: stm32_t where
  "ex_stm = \<lparr>port = \<lparr>flags = {PORT_BYTE, PORT_GVR_ETX, PORT_CMD_INIT, PORT_RETRY}\<rparr>, bl_version = 0x22, version = 0x22,
     option1 = 0, option2 = 0, pid = 0x410, cmd = ex_cmd, dev = ex_dev\<rparr>"

definition ack_world :: world where
  "ack_world = \<lparr>rx = [Rd_ok [0x79], Rd_ok [0x79], Rd_ok [0x79]], wx = [PORT_ERR_OK, PORT_ERR_OK, PORT_ERR_OK], clock = [0, 0, 0], trace = []\<rparr>"

text \<open>A GET reply as \<^verbatim>\<open>stm32_guess_len_cmd\<close> leaves it in the buffer: the length byte, the
  bootloader version, twelve opcodes with both write opcodes among them, and the ACK.\<close>

definition ex_get_reply :: "u8 list" where
  "ex_get_reply =
     [0x0C, 0x22, 0x00, 0x01, 0x02, 0x11, 0x21, 0x31, 0x32, 0x44, 0x63, 0x73, 0x82, 0x92, 0x79]"

text \<open>Two devices that stay silent for two reads: the first then answers NACK while the clock
  stands still, the second is read while the clock passes the one-second deadline.\<close>

definition ex_retry_world :: world where
  "ex_retry_world =
     \<lparr>rx = [Rd_timedout, Rd_timedout, Rd_ok [0x1F]], wx = [], clock = [10, 10, 10], trace = []\<rparr>"

definition ex_deadline_world :: world where
  "ex_deadline_world =
     \<lparr>rx = [Rd_timedout, Rd_timedout, Rd_ok [0x79]], wx = [], clock = [10, 10, 11], trace = []\<rparr>"

text \<open>
  A frame-oriented port (no \<^verbatim>\<open>PORT_BYTE\<close>, as an I2C link) and three devices asked for GET
  with the guess 17: one whose 19-byte answer starts with the length 11, one whose first
  frame read times out, and one whose answer starts with 17. Each answers the invalid
  command of a resync with NACK at once.
\<close>

definition ex_frame_stm :: stm32_t where
  "ex_frame_stm = ex_stm\<lparr>port := \<lparr>flags = {}\<rparr>\<rparr>"

definition ex_mismatch_world :: world where
  "ex_mismatch_world =
     \<lparr>rx = [Rd_ok [0x79], Rd_ok (0x0B # replicate 18 0), Rd_ok [0x1F], Rd_ok [0x79],
            Rd_ok (0x0B # replicate 12 0)],
      wx = [PORT_ERR_OK, PORT_ERR_OK, PORT_ERR_OK], clock = [0], trace = []\<rparr>"

definition ex_failed_read_world :: world where
  "ex_failed_read_world =
     \<lparr>rx = [Rd_ok [0x79], Rd_timedout, Rd_ok [0x1F], Rd_ok [0x79], Rd_ok [0x0B], Rd_ok [0x1F],
            Rd_ok [0x79], Rd_ok (0x0B # replicate 12 0)],
      wx = [PORT_ERR_OK, PORT_ERR_OK, PORT_ERR_OK, PORT_ERR_OK, PORT_ERR_OK],
      clock = [0, 0], trace = []\<rparr>"

definition ex_match_world :: world where
  "ex_match_world =
     \<lparr>rx = [Rd_ok [0x79], Rd_ok (0x11 # replicate 18 0)], wx = [PORT_ERR_OK], clock = [],
      trace = []\<rparr>"


subsection \<open>Notions used to state the properties\<close>

text \<open>\<open>n\<close> rounded up to a multiple of 4.\<close>

definition ceil4 :: "nat \<Rightarrow> nat" where
  "ceil4 n = ((n + 3) div 4) * 4"

text \<open>The world after one \<^verbatim>\<open>port->read\<close> of one byte that consumed the script entry
  \<open>x\<close>.\<close>

definition rd_step :: "world \<Rightarrow> rd_result \<Rightarrow> rd_result list \<Rightarrow> world" where
  "rd_step w x rest = w\<lparr>rx := rest, trace := trace w @ [EvRead 1 x]\<rparr>"

text \<open>
  The host CRC in the spec's words, to compare \<^verbatim>\<open>stm32_sw_crc\<close> with: the 32-bit
  little-endian word of four bytes of the stream (byte 0 is bits 0..7, byte 3 is bits
  24..31), and one step of an MSB-first CRC with polynomial \<open>0x04C11DB7\<close> and no
  reflection: shift left by one (arithmetic modulo \<open>2 ^ 32\<close>), and subtract the polynomial
  when the bit shifted out was set.
\<close>

definition crc_le_word :: "u8 \<Rightarrow> u8 \<Rightarrow> u8 \<Rightarrow> u8 \<Rightarrow> u32" where
  "crc_le_word b0 b1 b2 b3 =
     of_nat (unat b0 + 2 ^ 8 * unat b1 + 2 ^ 16 * unat b2 + 2 ^ 24 * unat b3)"

definition crc_msb_first :: "u32 \<Rightarrow> u32" where
  "crc_msb_first c = (if bit c 31 then 2 * c XOR 0x04C11DB7 else 2 * c)"

text \<open>The opcode bytes of a GET reply held in \<open>buf\<close>: \<open>buf ! 0\<close> of them, after the length
  byte and the bootloader version.\<close>

definition get_reply_opcodes :: "u8 list \<Rightarrow> u8 list" where
  "get_reply_opcodes buf = take (unat (buf ! 0)) (drop 2 buf)"

text \<open>The greatest opcode of the kind \<open>K\<close> among \<open>ops\<close>, or the sentinel when there is none.\<close>

definition newest_of :: "u8 set \<Rightarrow> u8 list \<Rightarrow> u8" where
  "newest_of K ops = (if set ops \<inter> K = {} then STM32_CMD_ERR else Max (set ops \<inter> K))"

text \<open>What the \<^verbatim>\<open>switch\<close> does to the table entry of the kind \<open>K\<close> when it meets the
  byte \<open>a\<close>.\<close>

definition latch :: "u8 set \<Rightarrow> u8 \<Rightarrow> u8 \<Rightarrow> u8" where
  "latch K a p = (if a \<in> K then newer p a else p)"

text \<open>
  The verdict of the spec for the read result at which a wait for the acknowledgement ends:
  the byte \<open>0x79\<close> is Ok, the byte \<open>0x1F\<close> is Nack, and any other byte, a timeout and a
  transport error are Unknown. A wait retries timeouts when the caller passed a non-zero
  timeout and the port has the RETRY flag.
\<close>

definition ack_result :: "rd_result \<Rightarrow> stm32_err_t" where
  "ack_result x =
     (if x = Rd_ok [STM32_ACK] then STM32_ERR_OK
      else if x = Rd_ok [STM32_NACK] then STM32_ERR_NACK
      else STM32_ERR_UNKNOWN)"

definition retrying :: "stm32_t \<Rightarrow> int \<Rightarrow> bool" where
  "retrying stm timeout \<longleftrightarrow> timeout \<noteq> 0 \<and> PORT_RETRY \<in> flags (port stm)"

text \<open>The invalid command pair that \<^verbatim>\<open>stm32_resync\<close> writes, and the pair that frames a
  command.\<close>

definition resync_frame :: "u8 list" where
  "resync_frame = [STM32_CMD_ERR, STM32_CMD_ERR XOR 0xFF]"

definition cmd_frame :: "u8 \<Rightarrow> u8 list" where
  "cmd_frame c = [c, c XOR 0xFF]"


text \<open>A well-formed page-size table: not empty, a first page size other than 0, and the
  terminator 0 at the end.\<close>

definition fl_ps_ok :: "u32 list \<Rightarrow> bool" where
  "fl_ps_ok ps \<longleftrightarrow> ps \<noteq> [] \<and> ps ! 0 \<noteq> 0 \<and> last ps = 0"

text \<open>The table index in force after \<open>m\<close> pages counted from index \<open>k\<close>, and the number of bytes
  those \<open>m\<close> pages cover.\<close>

fun ps_index :: "u32 list \<Rightarrow> nat \<Rightarrow> nat \<Rightarrow> nat" where
  "ps_index ps k 0 = k"
| "ps_index ps k (Suc m) = ps_index ps (ps_next ps k) m"

fun span :: "u32 list \<Rightarrow> nat \<Rightarrow> nat \<Rightarrow> nat" where
  "span ps k 0 = 0"
| "span ps k (Suc m) = unat (ps_at ps k) + span ps (ps_next ps k) m"





















text \<open>
  The recovery of \<^verbatim>\<open>stm32_guess_len_cmd\<close> in the spec's words: a sequence of steps, each of
  them Resync, re-send the command, or read \<open>n\<close> bytes. The steps are done in order and the
  sequence stops at the first step that fails (\<open>None\<close> in the result); when all succeed, the
  result is the bytes of the last step.
\<close>

datatype step = Resync | Send u8 | Read nat

fun do_step :: "stm32_t \<Rightarrow> step \<Rightarrow> world \<Rightarrow> ((bool \<times> u8 list) \<times> world) option" where
  "do_step stm Resync w =
     (case stm32_resync stm w of
        None \<Rightarrow> None
      | Some (e, w') \<Rightarrow> Some ((e = STM32_ERR_OK, []), w'))"
| "do_step stm (Send c) w =
     (case stm32_send_command stm c w of
        None \<Rightarrow> None
      | Some (e, w') \<Rightarrow> Some ((e = STM32_ERR_OK, []), w'))"
| "do_step stm (Read n) w =
     (case port_read n w of
        None \<Rightarrow> None
      | Some ((p, bs), w') \<Rightarrow> Some ((p = PORT_ERR_OK, bs), w'))"

fun do_steps :: "stm32_t \<Rightarrow> step list \<Rightarrow> world \<Rightarrow> (u8 list option \<times> world) option" where
  "do_steps stm [] w = Some (Some [], w)"
| "do_steps stm (s # ss) w =
     (case do_step stm s w of
        None \<Rightarrow> None
      | Some ((ok, bs), w') \<Rightarrow>
          if \<not> ok then Some (None, w')
          else if ss = [] then Some (Some bs, w')
          else do_steps stm ss w')"


section \<open>Properties\<close>

lemmas stm32_consts =
  STM32_ACK_def STM32_NACK_def STM32_BUSY_def STM32_CMD_INIT_def STM32_CMD_GET_def
  STM32_CMD_GVR_def STM32_CMD_GID_def STM32_CMD_RM_def STM32_CMD_GO_def STM32_CMD_WM_def
  STM32_CMD_WM_NS_def STM32_CMD_ER_def STM32_CMD_EE_def STM32_CMD_EE_NS_def
  STM32_CMD_WP_def STM32_CMD_WP_NS_def STM32_CMD_UW_def STM32_CMD_UW_NS_def
  STM32_CMD_RP_def STM32_CMD_RP_NS_def STM32_CMD_UR_def STM32_CMD_UR_NS_def
  STM32_CMD_CRC_def STM32_CMD_ERR_def STM32_RESYNC_TIMEOUT_def STM32_MASSERASE_TIMEOUT_def
  STM32_PAGEERASE_TIMEOUT_def STM32_BLKWRITE_TIMEOUT_def STM32_CMD_GET_LENGTH_def


subsection \<open>Word arithmetic\<close>

lemma and_3_mod: "(x::u32) AND 3 = x mod 4"
proof -
  have "(3::u32) = mask 2" by (simp add: mask_eq_exp_minus_1)
  then have "x AND 3 = take_bit 2 x" by (simp only: take_bit_eq_mask)
  then show ?thesis by (simp add: take_bit_eq_mod)
qed

lemma and_not_3: "(x::u32) AND NOT 3 = x - x mod 4"
proof -
  have m: "(3::u32) = mask 2" by (simp add: mask_eq_exp_minus_1)
  have "x AND NOT (mask 2) = x AND NOT (take_bit 2 x)" by (auto simp: bit_eq_iff bit_simps)
  also have "\<dots> = x - take_bit 2 x"
    by (rule disjunctive_diff_eq_and_not[symmetric]) (auto simp: bit_eq_iff bit_simps)
  also have "take_bit 2 x = x mod 4" by (simp add: take_bit_eq_mod)
  finally show ?thesis by (simp add: m)
qed

lemma unat_and_not_3: "unat ((x::u32) AND NOT 3) = (unat x div 4) * 4"
proof -
  have "x mod 4 \<le> x" by (simp add: word_le_nat_alt unat_mod)
  then have "unat (x - x mod 4) = unat x - unat x mod 4"
    by (simp add: unat_sub unat_mod)
  then have "unat (x - x mod 4) = (unat x div 4) * 4"
    by (simp add: minus_mod_eq_div_mult)
  then show ?thesis unfolding and_not_3 .
qed

lemma unat_wm_aligned_len:
  assumes "len \<le> 256"
  shows "unat (wm_aligned_len len) = ceil4 (unat len)"
proof -
  from assms have "unat len \<le> 256" by (simp add: word_le_nat_alt)
  then have "unat (len + 3) = unat len + 3"
    by (simp add: unat_word_ariths)
  then show ?thesis unfolding wm_aligned_len_def unat_and_not_3 ceil4_def by simp
qed

lemma wm_copy_loop_eq:
  "i \<le> len \<Longrightarrow> len \<le> length data \<Longrightarrow> len < length buf \<Longrightarrow>
   wm_copy_loop data len i (cs, buf) =
     (foldl (XOR) cs (drop i (take len data)),
      take (i + 1) buf @ drop i (take len data) @ drop (len + 1) buf)"
proof (induction data len i "(cs, buf)" arbitrary: cs buf rule: wm_copy_loop.induct)
  case (1 data len i cs buf)
  show ?case
  proof (cases "i < len")
    case True
    have d: "drop i (take len data) = data ! i # drop (Suc i) (take len data)"
      using True "1.prems" Cons_nth_drop_Suc [of i "take len data"] by simp
    have t: "take (Suc (Suc i)) (buf[Suc i := data ! i]) = take (Suc i) buf @ [data ! i]"
      using True "1.prems" by (simp add: take_Suc_conv_app_nth)
    have "wm_copy_loop data len i (cs, buf) =
        wm_copy_loop data len (i + 1) (cs XOR data ! i, buf[i + 1 := data ! i])"
      using True by (simp add: wm_copy_loop.simps [of data len i])
    also have "\<dots> = (foldl (XOR) (cs XOR data ! i) (drop (i + 1) (take len data)),
        take (i + 1 + 1) (buf[i + 1 := data ! i]) @ drop (i + 1) (take len data)
          @ drop (len + 1) (buf[i + 1 := data ! i]))"
      using True "1.prems" by (intro "1.hyps") auto
    finally show ?thesis using True by (simp add: d t)
  next
    case False
    with "1.prems" have "i = len" by simp
    then show ?thesis using "1.prems" by (simp add: wm_copy_loop.simps [of data len len])
  qed
qed

lemma wm_pad_loop_eq:
  "i \<le> n \<Longrightarrow> n < length buf \<Longrightarrow>
   wm_pad_loop n i (cs, buf) =
     (foldl (XOR) cs (replicate (n - i) 0xFF),
      take (i + 1) buf @ replicate (n - i) 0xFF @ drop (n + 1) buf)"
proof (induction n i "(cs, buf)" arbitrary: cs buf rule: wm_pad_loop.induct)
  case (1 n i cs buf)
  show ?case
  proof (cases "i < n")
    case True
    have r: "replicate (n - i) (0xFF :: u8) = 0xFF # replicate (n - Suc i) 0xFF"
      using True by (simp add: Suc_diff_Suc flip: replicate_Suc)
    have t: "take (Suc (Suc i)) (buf[Suc i := 0xFF]) = take (Suc i) buf @ [0xFF]"
      using True "1.prems" by (simp add: take_Suc_conv_app_nth)
    have "wm_pad_loop n i (cs, buf) = wm_pad_loop n (i + 1) (cs XOR 0xFF, buf[i + 1 := 0xFF])"
      using True by (simp add: wm_pad_loop.simps [of n i])
    also have "\<dots> = (foldl (XOR) (cs XOR 0xFF) (replicate (n - (i + 1)) 0xFF),
        take (i + 1 + 1) (buf[i + 1 := 0xFF]) @ replicate (n - (i + 1)) 0xFF
          @ drop (n + 1) (buf[i + 1 := 0xFF]))"
      using True "1.prems" by (intro "1.hyps") auto
    finally show ?thesis using True by (simp add: r t)
  next
    case False
    with "1.prems" have "i = n" by simp
    then show ?thesis using "1.prems" by (simp add: wm_pad_loop.simps [of n n])
  qed
qed


subsection \<open>What each primitive adds to the log\<close>

lemma writes_append: "writes (a @ b) = writes a @ writes b"
  by (induction a rule: writes.induct) auto

lemma port_write_SomeD:
  "port_write bs w = Some (e, w') \<Longrightarrow>
     trace w' = trace w @ [EvWrite bs] \<and> rx w' = rx w \<and> clock w' = clock w \<and> wx w = e # wx w'"
  by (auto simp: port_write_def split: list.splits)

lemma port_read_SomeD:
  "port_read n w = Some ((e, bs), w') \<Longrightarrow>
     (\<exists>x. rx w = x # rx w' \<and> trace w' = trace w @ [EvRead n x] \<and>
          (e = PORT_ERR_OK \<longleftrightarrow> x = Rd_ok bs) \<and> (e = PORT_ERR_TIMEDOUT \<longleftrightarrow> x = Rd_timedout)
          \<and> (e = PORT_ERR_OK \<longrightarrow> length bs = n))
     \<and> wx w' = wx w \<and> clock w' = clock w"
  by (auto simp: port_read_def Let_def split: list.splits rd_result.splits if_splits)

lemma time_now_SomeD:
  "time_now w = Some (t, w') \<Longrightarrow>
     trace w' = trace w \<and> rx w' = rx w \<and> wx w' = wx w \<and> clock w = t # clock w'"
  by (auto simp: time_now_def split: list.splits)

lemma port_write_writes:
  "port_write bs w = Some (e, w') \<Longrightarrow> writes (trace w') = writes (trace w) @ [bs]"
  by (auto dest!: port_write_SomeD simp: writes_append)

lemma port_read_writes:
  "port_read n w = Some (r, w') \<Longrightarrow> writes (trace w') = writes (trace w)"
  by (cases r) (auto dest!: port_read_SomeD simp: writes_append)

lemma time_now_writes:
  "time_now w = Some (t, w') \<Longrightarrow> writes (trace w') = writes (trace w)"
  by (auto dest!: time_now_SomeD)

lemma get_ack_loop_Nil: "rx w = [] \<Longrightarrow> get_ack_loop timeout t0 w = None"
  by (subst get_ack_loop.simps) (simp add: port_read_def)

lemma get_ack_loop_ok:
  "rx w = Rd_ok [b] # rest \<Longrightarrow>
   get_ack_loop timeout t0 w =
     (if b = STM32_ACK then Some (STM32_ERR_OK, rd_step w (Rd_ok [b]) rest)
      else if b = STM32_NACK then Some (STM32_ERR_NACK, rd_step w (Rd_ok [b]) rest)
      else if b \<noteq> STM32_BUSY then Some (STM32_ERR_UNKNOWN, rd_step w (Rd_ok [b]) rest)
      else get_ack_loop timeout t0 (rd_step w (Rd_ok [b]) rest))"
  by (subst get_ack_loop.simps) (simp add: port_read_def rd_step_def)

lemma get_ack_loop_bad_length:
  "rx w = Rd_ok bs # rest \<Longrightarrow> length bs \<noteq> 1 \<Longrightarrow> get_ack_loop timeout t0 w = None"
  by (subst get_ack_loop.simps) (simp add: port_read_def)

lemma get_ack_loop_error:
  "rx w = Rd_error # rest \<Longrightarrow>
   get_ack_loop timeout t0 w = Some (STM32_ERR_UNKNOWN, rd_step w Rd_error rest)"
  by (subst get_ack_loop.simps) (simp add: port_read_def rd_step_def)

lemma get_ack_loop_timedout_0:
  "rx w = Rd_timedout # rest \<Longrightarrow>
   get_ack_loop 0 t0 w = Some (STM32_ERR_UNKNOWN, rd_step w Rd_timedout rest)"
  by (subst get_ack_loop.simps) (simp add: port_read_def rd_step_def)

lemma get_ack_loop_timedout:
  "rx w = Rd_timedout # rest \<Longrightarrow> timeout \<noteq> 0 \<Longrightarrow>
   get_ack_loop timeout t0 w =
     (case clock w of
        [] \<Rightarrow> None
      | t1 # ck \<Rightarrow>
          if t1 < t0 + timeout
          then get_ack_loop timeout t0 ((rd_step w Rd_timedout rest)\<lparr>clock := ck\<rparr>)
          else Some (STM32_ERR_UNKNOWN, (rd_step w Rd_timedout rest)\<lparr>clock := ck\<rparr>))"
  by (subst get_ack_loop.simps)
     (simp add: port_read_def rd_step_def time_now_def split: list.splits)

lemma rd_step_simps [simp]:
  "rx (rd_step w x rest) = rest" "wx (rd_step w x rest) = wx w"
  "clock (rd_step w x rest) = clock w" "trace (rd_step w x rest) = trace w @ [EvRead 1 x]"
  by (simp_all add: rd_step_def)

lemma get_ack_loop_writes:
  "get_ack_loop timeout t0 w = Some (r, w') \<Longrightarrow> writes (trace w') = writes (trace w)"
proof (induction "rx w" arbitrary: w)
  case Nil
  then show ?case by (simp add: get_ack_loop_Nil)
next
  case (Cons x rest)
  note rx = Cons.hyps(2) [symmetric]
  show ?case
  proof (cases x)
    case (Rd_ok bs)
    show ?thesis
    proof (cases "length bs = 1")
      case True
      then obtain b where bs: "bs = [b]" by (cases bs) auto
      from Cons.prems show ?thesis
        using Cons.hyps(1) [of "rd_step w (Rd_ok [b]) rest"]
        by (auto simp: get_ack_loop_ok [OF rx [unfolded Rd_ok bs]] writes_append
                 split: if_splits)
    next
      case False
      with Cons.prems rx Rd_ok show ?thesis by (simp add: get_ack_loop_bad_length)
    qed
  next
    case Rd_timedout
    show ?thesis
    proof (cases "timeout = 0")
      case True
      with Cons.prems rx Rd_timedout show ?thesis
        by (auto simp: get_ack_loop_timedout_0 writes_append)
    next
      case False
      from Cons.prems show ?thesis
        using Cons.hyps(1) [of "(rd_step w Rd_timedout rest)\<lparr>clock := tl (clock w)\<rparr>"]
        by (auto simp: get_ack_loop_timedout [OF rx [unfolded Rd_timedout] False] writes_append
                 split: list.splits if_splits)
    qed
  next
    case Rd_error
    with Cons.prems rx show ?thesis by (auto simp: get_ack_loop_error writes_append)
  qed
qed

lemma get_ack_timeout_writes:
  "stm32_get_ack_timeout stm timeout w = Some (r, w') \<Longrightarrow> writes (trace w') = writes (trace w)"
  by (auto simp: stm32_get_ack_timeout_def Let_def split: if_splits option.splits
           dest!: get_ack_loop_writes time_now_writes)

lemma get_ack_writes:
  "stm32_get_ack stm w = Some (r, w') \<Longrightarrow> writes (trace w') = writes (trace w)"
  by (simp add: stm32_get_ack_def get_ack_timeout_writes)

lemma send_command_timeout_writes:
  "stm32_send_command_timeout stm c timeout w = Some (r, w') \<Longrightarrow>
   writes (trace w') = writes (trace w) @ [[c, c XOR 0xFF]]"
  by (auto simp: stm32_send_command_timeout_def split: option.splits if_splits
           dest!: port_write_writes get_ack_timeout_writes)

lemma send_command_writes:
  "stm32_send_command stm c w = Some (r, w') \<Longrightarrow>
   writes (trace w') = writes (trace w) @ [[c, c XOR 0xFF]]"
  by (simp add: stm32_send_command_def send_command_timeout_writes)


subsection \<open>The data frame of write memory\<close>

lemma length_list_update_seq [simp]: "length (list_update_seq buf k bs) = length buf"
  by (induction bs arbitrary: buf k) auto

lemma list_update_seq_eq:
  "k + length bs \<le> length buf \<Longrightarrow>
   list_update_seq buf k bs = take k buf @ bs @ drop (k + length bs) buf"
proof (induction bs arbitrary: buf k)
  case Nil
  then show ?case by simp
next
  case (Cons b bs)
  then have "list_update_seq (buf[k := b]) (k + 1) bs =
      take (k + 1) (buf[k := b]) @ bs @ drop (k + 1 + length bs) (buf[k := b])"
    by (intro Cons.IH) simp
  moreover have "take (k + 1) (buf[k := b]) = take k buf @ [b]"
    using Cons.prems by (simp add: take_Suc_conv_app_nth)
  ultimately show ?case by simp
qed

lemma length_addr_frame [simp]: "length (addr_frame a) = 5"
  by (simp add: addr_frame_def Let_def)

lemma take_addr_buf:
  "take 5 (list_update_seq (replicate 258 0) 0 (addr_frame a)) = addr_frame a"
  by (simp add: list_update_seq_eq)

lemma ceil4_bounds: "n \<le> ceil4 n" "ceil4 n < n + 4" "ceil4 n mod 4 = 0"
  by (simp_all add: ceil4_def)

lemma frame_tail:
  assumes "length P = N" "R \<noteq> []"
  shows "take (N + 2) ((c0 # P @ R)[N + 1 := cs]) = c0 # P @ [cs]"
proof -
  from assms obtain r R' where R: "R = r # R'" by (cases R) auto
  have "(c0 # P @ R)[N + 1 := cs] = c0 # P @ (cs # R')"
    using assms by (simp add: R list_update_append)
  then show ?thesis using assms by simp
qed

lemma wm_data_frame_eq:
  assumes len: "len \<noteq> 0" "len \<le> 256" and data: "unat len \<le> length data"
    and buf: "length buf = 258"
  shows "wm_data_frame buf data len =
           of_nat (ceil4 (unat len) - 1) #
           (take (unat len) data @ replicate (ceil4 (unat len) - unat len) 0xFF) @
           [foldl (XOR) (of_nat (ceil4 (unat len) - 1))
              (take (unat len) data @ replicate (ceil4 (unat len) - unat len) 0xFF)]"
proof -
  define L where "L = unat len"
  define N where "N = ceil4 L"
  define c0 :: u8 where "c0 = of_nat (N - 1)"
  have L: "0 < L" "L \<le> 256" using len by (simp_all add: L_def word_le_nat_alt unat_gt_0)
  have N: "unat (wm_aligned_len len) = N" using len by (simp add: N_def L_def unat_wm_aligned_len)
  have LN: "L \<le> N" "N \<le> 256" "0 < N"
    using L ceil4_bounds [of L] by (auto simp: N_def ceil4_def)
  have u: "unat (wm_aligned_len len - 1) = N - 1"
    using N LN by (simp add: unat_minus_one unat_eq_zero [symmetric])
  have "(ucast (wm_aligned_len len - 1) :: u8) = of_nat (unat (wm_aligned_len len - 1))"
    by simp
  then have c0: "(ucast (wm_aligned_len len - 1) :: u8) = c0"
    by (simp only: u c0_def)
  have copy: "wm_copy_loop data L 0 (c0, buf[0 := c0]) =
      (foldl (XOR) c0 (take L data), c0 # take L data @ drop (L + 1) buf)"
  proof -
    have "take (0 + 1) (buf[0 := c0]) = [c0]"
      using buf by (cases buf) auto
    moreover have "drop (L + 1) (buf[0 := c0]) = drop (L + 1) buf"
      by simp
    ultimately show ?thesis
      using L data buf by (subst wm_copy_loop_eq) (auto simp: L_def)
  qed
  have pad: "wm_pad_loop N L (foldl (XOR) c0 (take L data), c0 # take L data @ drop (L + 1) buf) =
      (foldl (XOR) c0 (take L data @ replicate (N - L) 0xFF),
       c0 # take L data @ replicate (N - L) 0xFF @ drop (N + 1) buf)"
    using L LN data buf
    by (subst wm_pad_loop_eq) (auto simp: L_def min_def)
  have len_P: "length (take L data @ replicate (N - L) (0xFF :: u8)) = N"
    using LN data by (simp add: L_def)
  have R: "drop (N + 1) buf \<noteq> []" using LN buf by simp
  have "wm_data_frame buf data len =
      take (N + 2) ((c0 # (take L data @ replicate (N - L) 0xFF) @ drop (N + 1) buf)
        [N + 1 := foldl (XOR) c0 (take L data @ replicate (N - L) 0xFF)])"
    unfolding wm_data_frame_def Let_def c0 N
    unfolding L_def [symmetric] copy prod.case pad by simp
  also have "\<dots> = c0 # (take L data @ replicate (N - L) 0xFF) @
      [foldl (XOR) c0 (take L data @ replicate (N - L) 0xFF)]"
    by (rule frame_tail [OF len_P R])
  finally show ?thesis by (simp only: c0_def N_def L_def)
qed


subsection \<open>Write memory: the frames on the wire\<close>

lemma write_memory_writes:
  assumes "stm32_write_memory stm address data len w = Some (r, w')"
  shows "writes (trace w') \<in>
           (\<lambda>k. writes (trace w) @
             take k [[wm (cmd stm), wm (cmd stm) XOR 0xFF], addr_frame address,
                     wm_data_frame (list_update_seq (replicate 258 0) 0 (addr_frame address))
                       data len]) ` {0, 1, 2, 3}"
  using assms
  unfolding stm32_write_memory_def Let_def take_addr_buf
  by (auto split: if_splits option.splits prod.splits
           dest!: send_command_writes port_write_writes get_ack_writes get_ack_timeout_writes)

lemma write_memory_third_write:
  assumes "stm32_write_memory stm address data len w = Some (r, w')"
    and "writes (trace w') = writes (trace w) @ fs" and "2 < length fs"
  shows "fs ! 2 = wm_data_frame (list_update_seq (replicate 258 0) 0 (addr_frame address))
                    data len"
  using write_memory_writes [OF assms(1)] assms(2,3) by auto


subsection \<open>A run of write memory on the concrete session\<close>

lemma ex_write_run:
  "unat len \<le> length data \<Longrightarrow> len \<noteq> 0 \<Longrightarrow> len \<le> 256 \<Longrightarrow>
   stm32_write_memory ex_stm 0x08000000 data len ack_world =
     Some (STM32_ERR_OK,
       \<lparr>rx = [], wx = [], clock = [0, 0],
        trace = [EvWrite [0x31, 0xCE], EvRead 1 (Rd_ok [0x79]),
                 EvWrite [0x08, 0, 0, 0, 0x08], EvRead 1 (Rd_ok [0x79]),
                 EvWrite (wm_data_frame (list_update_seq (replicate 258 0) 0
                            (addr_frame 0x08000000)) data len),
                 EvRead 1 (Rd_ok [0x79])]\<rparr>)"
  unfolding stm32_write_memory_def Let_def take_addr_buf
  by (simp add: ex_stm_def ex_cmd_def ack_world_def stm32_send_command_def
        stm32_send_command_timeout_def stm32_get_ack_def stm32_get_ack_timeout_def
        get_ack_loop.simps port_read_def port_write_def time_now_def addr_frame_def
        STM32_CMD_ERR_def STM32_ACK_def STM32_BLKWRITE_TIMEOUT_def leD)

lemma replicate_numeral: "replicate (numeral k) x = x # replicate (pred_numeral k) x"
  by (simp add: numeral_eq_Suc)




lemma ex_frame_3:
  "wm_data_frame (list_update_seq (replicate 258 0) 0 (addr_frame 0x08000000))
     [0x01, 0x02, 0x03] 3 = [0x03, 0x01, 0x02, 0x03, 0xFF, 0xFC]"
  by (subst wm_data_frame_eq) (simp_all add: ceil4_def replicate_numeral)

text \<open>
  Claim C2, as stated, fails: for the 3 bytes 01 02 03 written to 0x08000000 the data frame on
  the wire is 03 01 02 03 FF FC. The checksum byte is 0xFC, not 0xFE, and so is the XOR
  03 xor 01 xor 02 xor 03 xor FF that the claim evaluates to FE.
\<close>

theorem write_three_bytes_frame_counterexample:
  "writes (trace (snd (the (stm32_write_memory ex_stm 0x08000000 [0x01, 0x02, 0x03] 3
      ack_world)))) =
     [[0x31, 0xCE], [0x08, 0x00, 0x00, 0x00, 0x08], [0x03, 0x01, 0x02, 0x03, 0xFF, 0xFC]] \<and>
   [0x03, 0x01, 0x02, 0x03, 0xFF, 0xFC] \<noteq> [0x03, 0x01, 0x02, 0x03, 0xFF, 0xFE :: u8] \<and>
   (0x03 XOR 0x01 XOR 0x02 XOR 0x03 XOR 0xFF :: u8) \<noteq> 0xFE"
  by (simp add: ex_write_run ex_frame_3)

text \<open>
  Claim C2, amended: for a write of the 3 bytes 01 02 03 to address 0x08000000, whatever the
  session and the device's answers, the data frame (the third frame written, when the call
  gets that far) is 03 01 02 03 FF followed by the checksum byte 0xFC, the XOR of
  03, 01, 02, 03 and FF.
\<close>

theorem write_three_bytes_frame:
  assumes "stm32_write_memory stm 0x08000000 [0x01, 0x02, 0x03] 3 w = Some (r, w')"
    and "writes (trace w') = writes (trace w) @ fs" and "2 < length fs"
  shows "fs ! 2 = [0x03, 0x01, 0x02, 0x03, 0xFF, 0xFC] \<and>
         (0x03 XOR 0x01 XOR 0x02 XOR 0x03 XOR 0xFF :: u8) = 0xFC"
  using write_memory_third_write [OF assms] by (simp add: ex_frame_3)

theorem write_three_bytes_frame_witness:
  "stm32_write_memory ex_stm 0x08000000 [0x01, 0x02, 0x03] 3 ack_world =
     Some (STM32_ERR_OK,
       \<lparr>rx = [], wx = [], clock = [0, 0],
        trace = [EvWrite [0x31, 0xCE], EvRead 1 (Rd_ok [0x79]),
                 EvWrite [0x08, 0, 0, 0, 0x08], EvRead 1 (Rd_ok [0x79]),
                 EvWrite [0x03, 0x01, 0x02, 0x03, 0xFF, 0xFC], EvRead 1 (Rd_ok [0x79])]\<rparr>) \<and>
   [[0x31, 0xCE], [0x08, 0, 0, 0, 0x08], [0x03, 0x01, 0x02, 0x03, 0xFF, 0xFC :: u8]] ! 2 =
     [0x03, 0x01, 0x02, 0x03, 0xFF, 0xFC]"
proof -
  let ?w' = "\<lparr>rx = [], wx = [], clock = [0, 0],
        trace = [EvWrite [0x31, 0xCE], EvRead 1 (Rd_ok [0x79]),
                 EvWrite [0x08, 0, 0, 0, 0x08], EvRead 1 (Rd_ok [0x79]),
                 EvWrite [0x03, 0x01, 0x02, 0x03, 0xFF, 0xFC :: u8],
                 EvRead 1 (Rd_ok [0x79])]\<rparr>"
  let ?fs = "[[0x31, 0xCE], [0x08, 0, 0, 0, 0x08], [0x03, 0x01, 0x02, 0x03, 0xFF, 0xFC :: u8]]"
  have run: "stm32_write_memory ex_stm 0x08000000 [0x01, 0x02, 0x03] 3 ack_world =
      Some (STM32_ERR_OK, ?w')"
    by (simp add: ex_write_run ex_frame_3)
  have ws: "writes (trace ?w') = writes (trace ack_world) @ ?fs"
    by (simp add: ack_world_def)
  have "2 < length ?fs" by simp
  from write_three_bytes_frame [OF run ws this] run show ?thesis by simp
qed

subsection \<open>Write memory: the guards\<close>

text \<open>
  Claim C7, as stated, fails for a write of length 0: the length is tested before the
  alignment, so an unaligned write of no bytes returns Ok (and sends nothing).
\<close>

theorem unaligned_write_counterexample:
  "unat (0x08000001 :: u32) mod 4 \<noteq> 0 \<and>
   stm32_write_memory ex_stm 0x08000001 [] 0 ack_world = Some (STM32_ERR_OK, ack_world) \<and>
   STM32_ERR_OK \<noteq> STM32_ERR_UNKNOWN"
  by (simp add: stm32_write_memory_def)

text \<open>
  Claim C7, amended: every call of \<^verbatim>\<open>stm32_write_memory\<close> with a length other than 0 and
  an address that is not a multiple of 4 returns Unknown and leaves the transport untouched:
  nothing is written, nothing is read, the log is unchanged.
\<close>

theorem unaligned_write_rejected:
  assumes "len \<noteq> 0" and "unat address mod 4 \<noteq> 0"
  shows "stm32_write_memory stm address data len w = Some (STM32_ERR_UNKNOWN, w)"
proof -
  have "unat (address AND 3) = unat address mod 4" by (simp add: and_3_mod unat_mod)
  with assms have "address AND 3 \<noteq> 0" by auto
  with assms show ?thesis by (simp add: stm32_write_memory_def)
qed

theorem unaligned_write_rejected_witness:
  "(1 :: u32) \<noteq> 0 \<and> unat (0x08000002 :: u32) mod 4 \<noteq> 0 \<and>
   stm32_write_memory ex_stm 0x08000002 [0xAA] 1 ack_world = Some (STM32_ERR_UNKNOWN, ack_world)"
  using unaligned_write_rejected [of 1 "0x08000002" ex_stm "[0xAA]" ack_world] by simp

text \<open>
  Claim C10: with length 0, \<^verbatim>\<open>stm32_read_memory\<close> and \<^verbatim>\<open>stm32_write_memory\<close> return Ok
  at once and leave the transport untouched (the world, with its scripts and its log, is
  unchanged), for every session and every address: also when the address is not aligned and
  when the command is marked unsupported in the command table.
\<close>

theorem zero_length_read_write:
  "stm32_read_memory stm address data 0 w = Some ((STM32_ERR_OK, data), w) \<and>
   stm32_write_memory stm address' data' 0 w = Some (STM32_ERR_OK, w)"
  by (simp add: stm32_read_memory_def stm32_write_memory_def)



subsection \<open>Host-side CRC\<close>

lemma crc_shift_msb_first: "crc_shift c = crc_msb_first c"
proof -
  have m: "CRC_MSBMASK = 2 ^ 31" by (simp add: CRC_MSBMASK_def)
  have "(c AND CRC_MSBMASK \<noteq> 0) = bit c 31"
    unfolding m and_exp_eq_0_iff_not_bit by simp
  then show ?thesis
    by (simp add: crc_shift_def crc_msb_first_def CRCPOLY_BE_def push_bit_eq_mult mult.commute)
qed

lemma crc_bit_loop_funpow: "i \<le> 32 \<Longrightarrow> crc_bit_loop i c = (crc_shift ^^ (32 - i)) c"
proof (induction i c rule: crc_bit_loop.induct)
  case (1 i c)
  show ?case
  proof (cases "i < 32")
    case True
    then have "32 - i = Suc (32 - (i + 1))" by simp
    then have "(crc_shift ^^ (32 - i)) c = (crc_shift ^^ (32 - (i + 1))) (crc_shift c)"
      by (simp only: funpow_Suc_right o_apply)
    with True 1 show ?thesis
      by (subst crc_bit_loop.simps) simp
  next
    case False
    with 1 show ?thesis by (subst crc_bit_loop.simps) simp
  qed
qed

lemma le_word_or:
  "(ucast b0 :: u32) OR push_bit 8 (ucast b1) OR push_bit 16 (ucast b2) OR push_bit 24 (ucast b3)
     = crc_le_word b0 b1 b2 b3"
proof -
  define x0 :: u32 where "x0 = ucast b0"
  define x1 :: u32 where "x1 = push_bit 8 (ucast b1)"
  define x2 :: u32 where "x2 = push_bit 16 (ucast b2)"
  define x3 :: u32 where "x3 = push_bit 24 (ucast b3)"
  have b: "bit x0 n \<Longrightarrow> n < 8" "bit x1 n \<Longrightarrow> n < 16" "bit x1 n \<Longrightarrow> 8 \<le> n"
    "bit x2 n \<Longrightarrow> n < 24" "bit x2 n \<Longrightarrow> 16 \<le> n" "bit x3 n \<Longrightarrow> 24 \<le> n" for n
    by (auto simp: x0_def x1_def x2_def x3_def bit_simps dest: bit_imp_le_length)
  have "x2 AND x3 = 0" by (rule bit_eqI) (use b in \<open>fastforce simp: bit_simps\<close>)
  then have e3: "x2 OR x3 = x2 + x3" by (rule disjunctive_add_eq_or [symmetric])
  have "x1 AND (x2 OR x3) = 0" by (rule bit_eqI) (use b in \<open>fastforce simp: bit_simps\<close>)
  then have e2: "x1 OR (x2 + x3) = x1 + (x2 + x3)"
    unfolding e3 by (rule disjunctive_add_eq_or [symmetric])
  have "x0 AND (x1 OR (x2 OR x3)) = 0" by (rule bit_eqI) (use b in \<open>fastforce simp: bit_simps\<close>)
  then have e1: "x0 OR (x1 + (x2 + x3)) = x0 + (x1 + (x2 + x3))"
    unfolding e3 e2 by (rule disjunctive_add_eq_or [symmetric])
  have "x0 OR x1 OR x2 OR x3 = x0 + x1 + x2 + x3"
    by (simp only: or.assoc e1 e2 e3 add.assoc)
  also have "\<dots> = crc_le_word b0 b1 b2 b3"
    by (simp add: crc_le_word_def x0_def x1_def x2_def x3_def push_bit_eq_mult)
  finally show ?thesis by (simp only: x0_def x1_def x2_def x3_def)
qed


lemma crc_bit_loop_0: "crc_bit_loop 0 x = (crc_msb_first ^^ 32) x"
proof -
  have f: "crc_shift = crc_msb_first" by (rule ext) (rule crc_shift_msb_first)
  have "crc_bit_loop 0 x = (crc_shift ^^ (32 - 0)) x" by (rule crc_bit_loop_funpow) simp
  then show ?thesis by (simp only: f diff_zero)
qed

lemma sw_crc_one_word:
  "stm32_sw_crc c [b0, b1, b2, b3] 4 = (crc_msb_first ^^ 32) (c XOR crc_le_word b0 b1 b2 b3)"
proof -
  have "crc_word_loop c [b0, b1, b2, b3] 4 =
      crc_word_loop (crc_bit_loop 0 (c XOR crc_le_word b0 b1 b2 b3)) [] 0"
    by (subst crc_word_loop.simps) (simp add: le_word_or Let_def del: funpow.simps)
  also have "\<dots> = crc_bit_loop 0 (c XOR crc_le_word b0 b1 b2 b3)"
    by (subst crc_word_loop.simps) simp
  finally have "crc_word_loop c [b0, b1, b2, b3] 4 =
      (crc_msb_first ^^ 32) (c XOR crc_le_word b0 b1 b2 b3)"
    by (simp only: crc_bit_loop_0)
  moreover have "stm32_sw_crc c [b0, b1, b2, b3] 4 = crc_word_loop c [b0, b1, b2, b3] 4"
    by (simp add: stm32_sw_crc_def)
  ultimately show ?thesis by (simp only:)
qed


lemma crc_bit_loop_all_ones: "crc_bit_loop 0 0xFFFFFFFF = 0xC704DD7B"
  by (simp add: crc_bit_loop.simps crc_shift_def CRC_MSBMASK_def CRCPOLY_BE_def)

text \<open>
  Claim C9: \<^verbatim>\<open>stm32_sw_crc\<close> with initial value 0xFFFFFFFF on the four bytes 00 00 00 00
  returns 0xC704DD7B; and on any four bytes it is 32 MSB-first steps with polynomial
  0x04C11DB7, modulo \<open>2 ^ 32\<close>, of the incoming CRC xor-ed with the little-endian word of the
  bytes, with no reflection of input or output.
\<close>

theorem sw_crc_zero_word:
  "stm32_sw_crc 0xFFFFFFFF [0x00, 0x00, 0x00, 0x00] 4 = 0xC704DD7B \<and>
   stm32_sw_crc c [b0, b1, b2, b3] 4 = (crc_msb_first ^^ 32) (c XOR crc_le_word b0 b1 b2 b3)"
proof
  show "stm32_sw_crc 0xFFFFFFFF [0x00, 0x00, 0x00, 0x00] 4 = 0xC704DD7B"
    by (simp add: stm32_sw_crc_def crc_word_loop.simps crc_bit_loop_all_ones)
  show "stm32_sw_crc c [b0, b1, b2, b3] 4 =
      (crc_msb_first ^^ 32) (c XOR crc_le_word b0 b1 b2 b3)"
    by (rule sw_crc_one_word)
qed

subsection \<open>Opcode latching while the GET reply is parsed\<close>

lemma get_loop_fold:
  "get_loop buf len i c = fold get_switch (map (\<lambda>j. buf ! (j + 1)) [i..<len]) c"
proof (induction buf len i c rule: get_loop.induct)
  case (1 buf len i c)
  show ?case
  proof (cases "i < len")
    case True
    then have "[i..<len] = i # [i + 1..<len]" by (simp add: upt_conv_Cons)
    with True 1 show ?thesis by (subst get_loop.simps) simp
  next
    case False
    then show ?thesis by (subst get_loop.simps) simp
  qed
qed

lemma opcodes_of_buf:
  assumes "buf ! 0 \<noteq> 0xFF" and "unat (buf ! 0) + 2 \<le> length buf"
  shows "map (\<lambda>j. buf ! (j + 1)) [1..<unat (buf ! 0 + 1)] = get_reply_opcodes buf"
proof -
  define n where "n = unat (buf ! 0)"
  have "n < 256" using unsigned_less [of "buf ! 0", where 'a = nat] by (simp add: n_def)
  moreover have "n \<noteq> 255" using assms(1) by (simp add: n_def word_unat_eq_iff)
  ultimately have n1: "unat (buf ! 0 + 1) = n + 1"
    by (simp add: unat_word_ariths n_def)
  have "map (\<lambda>j. buf ! (j + 1)) [1..<n + 1] = take n (drop 2 buf)"
  proof (rule nth_equalityI)
    show "length (map (\<lambda>j. buf ! (j + 1)) [1..<n + 1]) = length (take n (drop 2 buf))"
      using assms(2) by (simp add: n_def)
  next
    fix i
    assume "i < length (map (\<lambda>j. buf ! (j + 1)) [1..<n + 1])"
    then have i: "i < n" by (simp del: upt_Suc)
    then have "map (\<lambda>j. buf ! (j + 1)) [1..<n + 1] ! i = buf ! (1 + i + 1)"
      by (subst nth_map_upt) simp_all
    also have "\<dots> = take n (drop 2 buf) ! i"
      using i assms(2) by (simp add: n_def)
    finally show "map (\<lambda>j. buf ! (j + 1)) [1..<n + 1] ! i = take n (drop 2 buf) ! i" .
  qed
  then show ?thesis by (simp only: n1 get_reply_opcodes_def n_def)
qed

lemma newer_max: "newer p a = (if p = STM32_CMD_ERR then a else max p a)"
  by (auto simp: newer_def max_def)

lemma fold_latch:
  assumes "STM32_CMD_ERR \<notin> K" "finite K"
  shows "fold (latch K) xs p =
     (if set xs \<inter> K = {} then p
      else if p = STM32_CMD_ERR then Max (set xs \<inter> K)
      else max p (Max (set xs \<inter> K)))"
proof (induction xs arbitrary: p)
  case Nil
  then show ?case by simp
next
  case (Cons x xs)
  have step: "fold (latch K) (x # xs) p = fold (latch K) xs (latch K x p)" by simp
  show ?case
  proof (cases "x \<in> K")
    case False
    then have "set (x # xs) \<inter> K = set xs \<inter> K" and "latch K x p = p"
      by (auto simp: latch_def)
    then show ?thesis by (simp only: step Cons.IH)
  next
    case True
    with assms have x: "x \<noteq> STM32_CMD_ERR" by auto
    have ins: "set (x # xs) \<inter> K = insert x (set xs \<inter> K)" using True by auto
    have fin: "finite (set xs \<inter> K)" by simp
    show ?thesis
    proof (cases "p = STM32_CMD_ERR")
      case p: True
      then have l: "latch K x p = x" using True by (simp add: latch_def newer_max)
      have "fold (latch K) xs x =
          (if set xs \<inter> K = {} then x else max x (Max (set xs \<inter> K)))"
        using x by (simp only: Cons.IH if_False)
      then show ?thesis
        unfolding step l ins using p fin by (simp add: Max_insert)
    next
      case p: False
      define q where "q = max p x"
      have l: "latch K x p = q" using True p by (simp add: latch_def newer_max q_def)
      have q: "q \<noteq> STM32_CMD_ERR" using p x by (auto simp: q_def max_def)
      have "fold (latch K) xs q =
          (if set xs \<inter> K = {} then q else max q (Max (set xs \<inter> K)))"
        using q by (simp only: Cons.IH if_False)
      then show ?thesis
        unfolding step l ins using p fin by (simp add: Max_insert q_def max.assoc)
    qed
  qed
qed

lemma newest_of_unset:
  assumes "STM32_CMD_ERR \<notin> K" "finite K"
  shows "fold (latch K) xs STM32_CMD_ERR = newest_of K xs"
  by (simp add: fold_latch [OF assms] newest_of_def)


lemma get_switch_fields:
  "wm (get_switch x c) = latch {STM32_CMD_WM, STM32_CMD_WM_NS} x (wm c)"
  "er (get_switch x c) = latch {STM32_CMD_ER, STM32_CMD_EE, STM32_CMD_EE_NS} x (er c)"
  "wp (get_switch x c) = latch {STM32_CMD_WP, STM32_CMD_WP_NS} x (wp c)"
  "uw (get_switch x c) = latch {STM32_CMD_UW, STM32_CMD_UW_NS} x (uw c)"
  "rp (get_switch x c) = latch {STM32_CMD_RP, STM32_CMD_RP_NS} x (rp c)"
  "ur (get_switch x c) = latch {STM32_CMD_UR, STM32_CMD_UR_NS} x (ur c)"
  "crc (get_switch x c) = latch {STM32_CMD_CRC} x (crc c)"
  by (simp_all add: get_switch_def latch_def stm32_consts)

lemma fold_get_switch_fields:
  "wm (fold get_switch xs c) = fold (latch {STM32_CMD_WM, STM32_CMD_WM_NS}) xs (wm c)"
  "er (fold get_switch xs c) =
     fold (latch {STM32_CMD_ER, STM32_CMD_EE, STM32_CMD_EE_NS}) xs (er c)"
  "wp (fold get_switch xs c) = fold (latch {STM32_CMD_WP, STM32_CMD_WP_NS}) xs (wp c)"
  "uw (fold get_switch xs c) = fold (latch {STM32_CMD_UW, STM32_CMD_UW_NS}) xs (uw c)"
  "rp (fold get_switch xs c) = fold (latch {STM32_CMD_RP, STM32_CMD_RP_NS}) xs (rp c)"
  "ur (fold get_switch xs c) = fold (latch {STM32_CMD_UR, STM32_CMD_UR_NS}) xs (ur c)"
  "crc (fold get_switch xs c) = fold (latch {STM32_CMD_CRC}) xs (crc c)"
  by (induction xs arbitrary: c; simp add: get_switch_fields)+

lemma init_get_reply_fold:
  assumes "buf ! 0 \<noteq> 0xFF" and "unat (buf ! 0) + 2 \<le> length buf"
  shows "stm32_init_get_reply buf = fold get_switch (get_reply_opcodes buf) cmd_unset"
  unfolding stm32_init_get_reply_def get_loop_fold opcodes_of_buf [OF assms] ..

lemma newest_of_pair:
  assumes "a \<in> set ops" and "b \<in> set ops"
  shows "newest_of {a, b} ops = max a b"
proof -
  from assms have "set ops \<inter> {a, b} = {a, b}" by auto
  then show ?thesis by (simp add: newest_of_def max.commute)
qed

lemma newest_of_erase:
  assumes "STM32_CMD_EE \<in> set ops" and "STM32_CMD_EE_NS \<in> set ops"
  shows "newest_of {STM32_CMD_ER, STM32_CMD_EE, STM32_CMD_EE_NS} ops =
           max STM32_CMD_EE STM32_CMD_EE_NS"
proof -
  let ?A = "set ops \<inter> {STM32_CMD_ER, STM32_CMD_EE, STM32_CMD_EE_NS}"
  have "Max ?A = STM32_CMD_EE_NS"
    by (rule Max_eqI) (use assms in \<open>auto simp: stm32_consts\<close>)
  moreover have "?A \<noteq> {}" using assms by auto
  ultimately show ?thesis by (simp add: newest_of_def stm32_consts)
qed

text \<open>
  Claim C3, as stated, fails at the first update of an entry: the table starts as the
  sentinel 0xFF, \<^verbatim>\<open>newer\<close> then stores the candidate, and the candidate is not the
  numerical maximum of 0xFF and itself.
\<close>

theorem get_reply_latching_counterexample:
  "wm cmd_unset = 0xFF \<and> wm (get_switch 0x31 cmd_unset) = 0x31 \<and>
   max (wm cmd_unset) 0x31 = 0xFF \<and>
   wm (stm32_init_get_reply [0x01, 0x22, 0x31, 0x79]) = 0x31"
  by (simp add: stm32_init_get_reply_def get_loop.simps get_switch_def cmd_unset_def newer_def
        stm32_consts)

text \<open>
  Claim C3, amended. Each update stores the candidate when the entry is still the sentinel
  0xFF, and the maximum of the entry and the candidate otherwise. For a reply that announces
  fewer than 255 opcodes and fits its buffer, the entry of each kind with a legacy and a
  no-stretch opcode (write, erase, write protect, write unprotect, read protect, read
  unprotect) and of CRC ends up as the numerically greatest opcode of that kind in the
  reply, or as the sentinel when the reply has none; so when both opcodes of a pair are in
  the reply, the greater of the two is stored.
\<close>

theorem get_reply_latching:
  assumes "buf ! 0 \<noteq> 0xFF" and "unat (buf ! 0) + 2 \<le> length buf"
  shows "newer prev a = (if prev = STM32_CMD_ERR then a else max prev a) \<and>
    wm (stm32_init_get_reply buf) =
      newest_of {STM32_CMD_WM, STM32_CMD_WM_NS} (get_reply_opcodes buf) \<and>
    er (stm32_init_get_reply buf) =
      newest_of {STM32_CMD_ER, STM32_CMD_EE, STM32_CMD_EE_NS} (get_reply_opcodes buf) \<and>
    wp (stm32_init_get_reply buf) =
      newest_of {STM32_CMD_WP, STM32_CMD_WP_NS} (get_reply_opcodes buf) \<and>
    uw (stm32_init_get_reply buf) =
      newest_of {STM32_CMD_UW, STM32_CMD_UW_NS} (get_reply_opcodes buf) \<and>
    rp (stm32_init_get_reply buf) =
      newest_of {STM32_CMD_RP, STM32_CMD_RP_NS} (get_reply_opcodes buf) \<and>
    ur (stm32_init_get_reply buf) =
      newest_of {STM32_CMD_UR, STM32_CMD_UR_NS} (get_reply_opcodes buf) \<and>
    crc (stm32_init_get_reply buf) = newest_of {STM32_CMD_CRC} (get_reply_opcodes buf) \<and>
    (STM32_CMD_WM \<in> set (get_reply_opcodes buf) \<and>
     STM32_CMD_WM_NS \<in> set (get_reply_opcodes buf) \<longrightarrow>
       wm (stm32_init_get_reply buf) = max STM32_CMD_WM STM32_CMD_WM_NS) \<and>
    (STM32_CMD_EE \<in> set (get_reply_opcodes buf) \<and>
     STM32_CMD_EE_NS \<in> set (get_reply_opcodes buf) \<longrightarrow>
       er (stm32_init_get_reply buf) = max STM32_CMD_EE STM32_CMD_EE_NS) \<and>
    (STM32_CMD_WP \<in> set (get_reply_opcodes buf) \<and>
     STM32_CMD_WP_NS \<in> set (get_reply_opcodes buf) \<longrightarrow>
       wp (stm32_init_get_reply buf) = max STM32_CMD_WP STM32_CMD_WP_NS) \<and>
    (STM32_CMD_UW \<in> set (get_reply_opcodes buf) \<and>
     STM32_CMD_UW_NS \<in> set (get_reply_opcodes buf) \<longrightarrow>
       uw (stm32_init_get_reply buf) = max STM32_CMD_UW STM32_CMD_UW_NS) \<and>
    (STM32_CMD_RP \<in> set (get_reply_opcodes buf) \<and>
     STM32_CMD_RP_NS \<in> set (get_reply_opcodes buf) \<longrightarrow>
       rp (stm32_init_get_reply buf) = max STM32_CMD_RP STM32_CMD_RP_NS) \<and>
    (STM32_CMD_UR \<in> set (get_reply_opcodes buf) \<and>
     STM32_CMD_UR_NS \<in> set (get_reply_opcodes buf) \<longrightarrow>
       ur (stm32_init_get_reply buf) = max STM32_CMD_UR STM32_CMD_UR_NS)"
proof -
  have unset: "wm cmd_unset = STM32_CMD_ERR" "er cmd_unset = STM32_CMD_ERR"
    "wp cmd_unset = STM32_CMD_ERR" "uw cmd_unset = STM32_CMD_ERR"
    "rp cmd_unset = STM32_CMD_ERR" "ur cmd_unset = STM32_CMD_ERR"
    "crc cmd_unset = STM32_CMD_ERR"
    by (simp_all add: cmd_unset_def)
  have kinds: "fold (latch K) ops STM32_CMD_ERR = newest_of K ops"
    if "K \<in> {{STM32_CMD_WM, STM32_CMD_WM_NS}, {STM32_CMD_ER, STM32_CMD_EE, STM32_CMD_EE_NS},
               {STM32_CMD_WP, STM32_CMD_WP_NS}, {STM32_CMD_UW, STM32_CMD_UW_NS},
               {STM32_CMD_RP, STM32_CMD_RP_NS}, {STM32_CMD_UR, STM32_CMD_UR_NS},
               {STM32_CMD_CRC}}" for K ops
    by (rule newest_of_unset) (use that in \<open>auto simp: stm32_consts\<close>)
  show ?thesis
    unfolding init_get_reply_fold [OF assms] fold_get_switch_fields unset
    by (simp add: kinds newer_max newest_of_pair newest_of_erase)
qed

theorem get_reply_latching_witness:
  "ex_get_reply ! 0 \<noteq> 0xFF \<and> unat (ex_get_reply ! 0) + 2 \<le> length ex_get_reply \<and>
   STM32_CMD_WM \<in> set (get_reply_opcodes ex_get_reply) \<and>
   STM32_CMD_WM_NS \<in> set (get_reply_opcodes ex_get_reply) \<and>
   wm (stm32_init_get_reply ex_get_reply) = max STM32_CMD_WM STM32_CMD_WM_NS \<and>
   wm (stm32_init_get_reply ex_get_reply) = 0x32 \<and>
   er (stm32_init_get_reply ex_get_reply) = 0x44 \<and>
   crc (stm32_init_get_reply ex_get_reply) = 0xFF"
proof -
  have h: "ex_get_reply ! 0 \<noteq> 0xFF" "unat (ex_get_reply ! 0) + 2 \<le> length ex_get_reply"
    by (simp_all add: ex_get_reply_def)
  have ops: "get_reply_opcodes ex_get_reply =
      [0x00, 0x01, 0x02, 0x11, 0x21, 0x31, 0x32, 0x44, 0x63, 0x73, 0x82, 0x92]"
    by (simp add: get_reply_opcodes_def ex_get_reply_def)
  from get_reply_latching [OF h] h show ?thesis
    by (simp add: ops newest_of_def stm32_consts)
qed


subsection \<open>Waiting for the acknowledgement\<close>

lemma get_ack_loop_skip:
  assumes "Rd_timedout \<in> set skipped \<longrightarrow> timeout \<noteq> 0"
  shows "set skipped \<subseteq> {Rd_ok [STM32_BUSY], Rd_timedout} \<Longrightarrow>
         rx w = skipped @ rs \<Longrightarrow> clock w = ts @ ck \<Longrightarrow>
         length ts = count_list skipped Rd_timedout \<Longrightarrow>
         \<forall>t\<in>set ts. t < t0 + timeout \<Longrightarrow>
         get_ack_loop timeout t0 w =
           get_ack_loop timeout t0
             (w\<lparr>rx := rs, clock := ck, trace := trace w @ map (EvRead 1) skipped\<rparr>)"
  using assms
proof (induction skipped arbitrary: w ts)
  case Nil
  then have "w\<lparr>rx := rs, clock := ck, trace := trace w @ map (EvRead 1) []\<rparr> = w"
    by (cases w) simp
  then show ?case by (simp only:)
next
  case (Cons x sk)
  have ne: "STM32_BUSY \<noteq> STM32_ACK" "STM32_BUSY \<noteq> STM32_NACK"
    by (simp_all add: stm32_consts)
  from Cons.prems(1) consider "x = Rd_ok [STM32_BUSY]" | "x = Rd_timedout" by auto
  then show ?case
  proof cases
    case 1
    let ?w1 = "rd_step w (Rd_ok [STM32_BUSY]) (sk @ rs)"
    have "get_ack_loop timeout t0 w = get_ack_loop timeout t0 ?w1"
      using Cons.prems(2) 1 by (subst get_ack_loop_ok [where b = STM32_BUSY]) (auto simp: ne)
    also have "\<dots> = get_ack_loop timeout t0
        (?w1\<lparr>rx := rs, clock := ck, trace := trace ?w1 @ map (EvRead 1) sk\<rparr>)"
      using Cons.prems 1 by (intro Cons.IH [where ts = ts]) auto
    also have "?w1\<lparr>rx := rs, clock := ck, trace := trace ?w1 @ map (EvRead 1) sk\<rparr> =
        w\<lparr>rx := rs, clock := ck, trace := trace w @ map (EvRead 1) (x # sk)\<rparr>"
      by (simp add: rd_step_def 1)
    finally show ?thesis .
  next
    case 2
    with Cons.prems(6) have t: "timeout \<noteq> 0" by simp
    from Cons.prems(4) 2 obtain t1 ts' where ts: "ts = t1 # ts'" by (cases ts) auto
    let ?w1 = "(rd_step w Rd_timedout (sk @ rs))\<lparr>clock := ts' @ ck\<rparr>"
    have "get_ack_loop timeout t0 w = get_ack_loop timeout t0 ?w1"
      using Cons.prems 2 ts by (subst get_ack_loop_timedout [OF _ t]) auto
    also have "\<dots> = get_ack_loop timeout t0
        (?w1\<lparr>rx := rs, clock := ck, trace := trace ?w1 @ map (EvRead 1) sk\<rparr>)"
      using Cons.prems 2 ts by (intro Cons.IH [where ts = ts']) auto
    also have "?w1\<lparr>rx := rs, clock := ck, trace := trace ?w1 @ map (EvRead 1) sk\<rparr> =
        w\<lparr>rx := rs, clock := ck, trace := trace w @ map (EvRead 1) (x # sk)\<rparr>"
      by (simp add: rd_step_def 2)
    finally show ?thesis .
  qed
qed

lemma get_ack_loop_terminal:
  assumes "rx w = x # rest"
    and "x = Rd_error \<or> (x = Rd_timedout \<and> timeout = 0) \<or> (\<exists>b. x = Rd_ok [b] \<and> b \<noteq> STM32_BUSY)"
  shows "get_ack_loop timeout t0 w = Some (ack_result x, rd_step w x rest)"
proof -
  have ne: "STM32_NACK \<noteq> STM32_ACK" by (simp add: stm32_consts)
  from assms(2) consider "x = Rd_error" | "x = Rd_timedout" "timeout = 0"
    | b where "x = Rd_ok [b]" "b \<noteq> STM32_BUSY" by blast
  then show ?thesis
  proof cases
    case 1
    with assms(1) show ?thesis by (simp add: get_ack_loop_error ack_result_def)
  next
    case 2
    with assms(1) show ?thesis by (simp add: get_ack_loop_timedout_0 ack_result_def)
  next
    case 3
    with assms(1) ne show ?thesis by (auto simp: get_ack_loop_ok ack_result_def)
  qed
qed

lemma get_ack_loop_returns:
  "get_ack_loop timeout t0 w = Some (r, w') \<Longrightarrow>
   \<exists>skipped x. rx w = skipped @ x # rx w' \<and>
     set skipped \<subseteq> {Rd_ok [STM32_BUSY], Rd_timedout} \<and>
     (timeout = 0 \<longrightarrow> Rd_timedout \<notin> set skipped) \<and>
     x \<noteq> Rd_ok [STM32_BUSY] \<and> r = ack_result x"
proof (induction "rx w" arbitrary: w)
  case Nil
  then show ?case by (simp add: get_ack_loop_Nil)
next
  case (Cons x rest)
  note rx = Cons.hyps(2) [symmetric]
  let ?goal = "\<exists>skipped x. rx w = skipped @ x # rx w' \<and>
     set skipped \<subseteq> {Rd_ok [STM32_BUSY], Rd_timedout} \<and>
     (timeout = 0 \<longrightarrow> Rd_timedout \<notin> set skipped) \<and>
     x \<noteq> Rd_ok [STM32_BUSY] \<and> r = ack_result x"
  have rec: ?goal
    if "get_ack_loop timeout t0 w1 = Some (r, w')" "rx w1 = rest"
      "x = Rd_ok [STM32_BUSY] \<or> (x = Rd_timedout \<and> timeout \<noteq> 0)" for w1
  proof -
    from Cons.hyps(1) [of w1] that obtain sk y where
      "rest = sk @ y # rx w'" "set sk \<subseteq> {Rd_ok [STM32_BUSY], Rd_timedout}"
      "timeout = 0 \<longrightarrow> Rd_timedout \<notin> set sk" "y \<noteq> Rd_ok [STM32_BUSY]" "r = ack_result y"
      by auto
    with that(3) rx show ?thesis
      by (intro exI [of _ "x # sk"] exI [of _ y]) auto
  qed
  have one: ?goal
    if "get_ack_loop timeout t0 w = Some (ack_result x, rd_step w x rest)"
      "x \<noteq> Rd_ok [STM32_BUSY]"
  proof -
    from that(1) Cons.prems have "r = ack_result x" "rx w' = rest" by auto
    with that(2) rx show ?thesis by (intro exI [of _ "[]"] exI [of _ x]) simp
  qed
  show ?case
  proof (cases x)
    case (Rd_ok bs)
    show ?thesis
    proof (cases "length bs = 1")
      case True
      then obtain b where bs: "bs = [b]" by (cases bs) auto
      show ?thesis
      proof (cases "b = STM32_BUSY")
        case False
        with rx Rd_ok bs show ?thesis
          by (intro one get_ack_loop_terminal) auto
      next
        case busy: True
        have ne: "STM32_BUSY \<noteq> STM32_ACK" "STM32_BUSY \<noteq> STM32_NACK"
          by (simp_all add: stm32_consts)
        from Cons.prems get_ack_loop_ok [OF rx [unfolded Rd_ok bs], of timeout t0] busy
        have "get_ack_loop timeout t0 (rd_step w (Rd_ok [b]) rest) = Some (r, w')"
          by (simp add: ne)
        then show ?thesis by (rule rec) (simp_all add: Rd_ok bs busy)
      qed
    next
      case False
      with Cons.prems rx Rd_ok show ?thesis by (simp add: get_ack_loop_bad_length)
    qed
  next
    case Rd_timedout
    show ?thesis
    proof (cases "timeout = 0")
      case True
      with rx Rd_timedout show ?thesis
        by (intro one get_ack_loop_terminal) auto
    next
      case False
      note step = get_ack_loop_timedout [OF rx [unfolded Rd_timedout] False, of t0]
      from Cons.prems step obtain t1 ck where ck: "clock w = t1 # ck"
        by (cases "clock w") auto
      show ?thesis
      proof (cases "t1 < t0 + timeout")
        case True
        with Cons.prems step ck
        have "get_ack_loop timeout t0 ((rd_step w Rd_timedout rest)\<lparr>clock := ck\<rparr>) =
            Some (r, w')"
          by simp
        then show ?thesis by (rule rec) (simp_all add: Rd_timedout False)
      next
        case late: False
        with Cons.prems step ck have "r = STM32_ERR_UNKNOWN" "rx w' = rest" by auto
        with rx Rd_timedout show ?thesis
          by (intro exI [of _ "[]"] exI [of _ x]) (simp add: ack_result_def)
      qed
    qed
  next
    case Rd_error
    with rx show ?thesis
      by (intro one get_ack_loop_terminal) auto
  qed
qed


lemma count_list_replicate_other: "x \<noteq> y \<Longrightarrow> count_list (replicate k x) y = 0"
  by (induction k) simp_all

lemma get_ack_loop_run:
  assumes "set skipped \<subseteq> {Rd_ok [STM32_BUSY], Rd_timedout}"
    and "Rd_timedout \<in> set skipped \<longrightarrow> timeout \<noteq> 0"
    and "rx w = skipped @ x # rest" and "clock w = ts @ ck"
    and "length ts = count_list skipped Rd_timedout" and "\<forall>t\<in>set ts. t < t0 + timeout"
    and "x = Rd_error \<or> (x = Rd_timedout \<and> timeout = 0) \<or> (\<exists>b. x = Rd_ok [b] \<and> b \<noteq> STM32_BUSY)"
  shows "get_ack_loop timeout t0 w =
     Some (ack_result x,
       w\<lparr>rx := rest, clock := ck, trace := trace w @ map (EvRead 1) (skipped @ [x])\<rparr>)"
proof -
  let ?w1 = "w\<lparr>rx := x # rest, clock := ck, trace := trace w @ map (EvRead 1) skipped\<rparr>"
  have "get_ack_loop timeout t0 w = get_ack_loop timeout t0 ?w1"
    by (rule get_ack_loop_skip [OF assms(2,1,3,4,5,6)])
  also have "\<dots> = Some (ack_result x, rd_step ?w1 x rest)"
    by (rule get_ack_loop_terminal [OF _ assms(7)]) simp
  also have "rd_step ?w1 x rest =
      w\<lparr>rx := rest, clock := ck, trace := trace w @ map (EvRead 1) (skipped @ [x])\<rparr>"
    by (simp add: rd_step_def)
  finally show ?thesis .
qed

lemma get_ack_loop_deadline:
  assumes "set skipped \<subseteq> {Rd_ok [STM32_BUSY], Rd_timedout}" and "timeout \<noteq> 0"
    and "rx w = skipped @ Rd_timedout # rest" and "clock w = ts @ t # ck"
    and "length ts = count_list skipped Rd_timedout" and "\<forall>t\<in>set ts. t < t0 + timeout"
    and "\<not> t < t0 + timeout"
  shows "get_ack_loop timeout t0 w =
     Some (STM32_ERR_UNKNOWN,
       w\<lparr>rx := rest, clock := ck,
         trace := trace w @ map (EvRead 1) (skipped @ [Rd_timedout])\<rparr>)"
proof -
  let ?w1 = "w\<lparr>rx := Rd_timedout # rest, clock := t # ck,
      trace := trace w @ map (EvRead 1) skipped\<rparr>"
  have "get_ack_loop timeout t0 w = get_ack_loop timeout t0 ?w1"
    using assms(2) by (intro get_ack_loop_skip [OF _ assms(1,3,4,5,6)]) simp
  also have "\<dots> = Some (STM32_ERR_UNKNOWN, (rd_step ?w1 Rd_timedout rest)\<lparr>clock := ck\<rparr>)"
    using assms(7) by (subst get_ack_loop_timedout [OF _ assms(2), where rest = rest]) simp_all
  also have "(rd_step ?w1 Rd_timedout rest)\<lparr>clock := ck\<rparr> =
      w\<lparr>rx := rest, clock := ck, trace := trace w @ map (EvRead 1) (skipped @ [Rd_timedout])\<rparr>"
    by (simp add: rd_step_def)
  finally show ?thesis .
qed

lemma ack_result_iff:
  "ack_result x = STM32_ERR_OK \<longleftrightarrow> x = Rd_ok [STM32_ACK]"
  "ack_result x = STM32_ERR_NACK \<longleftrightarrow> x = Rd_ok [STM32_NACK]"
  by (auto simp: ack_result_def stm32_consts)

text \<open>
  Claim C4. The wait skips BUSY bytes, and timeouts that are retried, and ends at the first
  other read result \<open>x\<close>: it returns Ok exactly when \<open>x\<close> is the byte ACK, Nack exactly when
  it is the byte NACK, and Unknown when it is any other byte, a transport error or a timeout
  that is not retried. With a zero timeout argument or a port without RETRY no timeout is
  retried: after \<open>k\<close> BUSY bytes the result is the verdict of \<open>x\<close>, which is Unknown at once
  for a timeout. With a non-zero timeout and RETRY the clock is read once at the start
  (\<open>t0\<close>) and once after every timeout: a timeout before \<open>t0 + timeout\<close> is skipped like a
  BUSY byte, and the first timeout at or after the deadline gives Unknown. Every call that
  returns has this shape.
\<close>

theorem get_ack_timeout_verdict_and_retry:
  "(\<forall>k x rest.
      \<not> retrying stm timeout \<and> rx w = replicate k (Rd_ok [STM32_BUSY]) @ x # rest \<and>
      (x = Rd_error \<or> x = Rd_timedout \<or> (\<exists>b. x = Rd_ok [b] \<and> b \<noteq> STM32_BUSY)) \<longrightarrow>
      stm32_get_ack_timeout stm timeout w =
        Some (ack_result x,
          w\<lparr>rx := rest,
            trace := trace w @ map (EvRead 1) (replicate k (Rd_ok [STM32_BUSY]) @ [x])\<rparr>)) \<and>
   (\<forall>skipped x rest t0 ts ck.
      retrying stm timeout \<and> rx w = skipped @ x # rest \<and>
      set skipped \<subseteq> {Rd_ok [STM32_BUSY], Rd_timedout} \<and>
      (x = Rd_error \<or> (\<exists>b. x = Rd_ok [b] \<and> b \<noteq> STM32_BUSY)) \<and>
      clock w = t0 # ts @ ck \<and> length ts = count_list skipped Rd_timedout \<and>
      (\<forall>t\<in>set ts. t < t0 + timeout) \<longrightarrow>
      stm32_get_ack_timeout stm timeout w =
        Some (ack_result x,
          w\<lparr>rx := rest, clock := ck,
            trace := trace w @ map (EvRead 1) (skipped @ [x])\<rparr>)) \<and>
   (\<forall>skipped rest t0 ts t ck.
      retrying stm timeout \<and> rx w = skipped @ Rd_timedout # rest \<and>
      set skipped \<subseteq> {Rd_ok [STM32_BUSY], Rd_timedout} \<and>
      clock w = t0 # ts @ t # ck \<and> length ts = count_list skipped Rd_timedout \<and>
      (\<forall>t'\<in>set ts. t' < t0 + timeout) \<and> \<not> t < t0 + timeout \<longrightarrow>
      stm32_get_ack_timeout stm timeout w =
        Some (STM32_ERR_UNKNOWN,
          w\<lparr>rx := rest, clock := ck,
            trace := trace w @ map (EvRead 1) (skipped @ [Rd_timedout])\<rparr>)) \<and>
   (\<forall>r w'. stm32_get_ack_timeout stm timeout w = Some (r, w') \<longrightarrow>
      (\<exists>skipped x. rx w = skipped @ x # rx w' \<and>
         set skipped \<subseteq> {Rd_ok [STM32_BUSY], Rd_timedout} \<and>
         (\<not> retrying stm timeout \<longrightarrow> Rd_timedout \<notin> set skipped) \<and>
         x \<noteq> Rd_ok [STM32_BUSY] \<and> r = ack_result x \<and>
         (r = STM32_ERR_OK \<longleftrightarrow> x = Rd_ok [STM32_ACK]) \<and>
         (r = STM32_ERR_NACK \<longleftrightarrow> x = Rd_ok [STM32_NACK])))"
proof (intro conjI allI impI)
  fix k x rest
  assume a: "\<not> retrying stm timeout \<and> rx w = replicate k (Rd_ok [STM32_BUSY]) @ x # rest \<and>
      (x = Rd_error \<or> x = Rd_timedout \<or> (\<exists>b. x = Rd_ok [b] \<and> b \<noteq> STM32_BUSY))"
  let ?sk = "replicate k (Rd_ok [STM32_BUSY])"
  have "stm32_get_ack_timeout stm timeout w = get_ack_loop 0 0 w"
    using a by (auto simp: stm32_get_ack_timeout_def retrying_def)
  also have "\<dots> = Some (ack_result x,
      w\<lparr>rx := rest, clock := clock w, trace := trace w @ map (EvRead 1) (?sk @ [x])\<rparr>)"
    using a by (intro get_ack_loop_run [where ts = "[]"])
      (auto simp: count_list_replicate_other)
  also have "w\<lparr>rx := rest, clock := clock w, trace := trace w @ map (EvRead 1) (?sk @ [x])\<rparr> =
      w\<lparr>rx := rest, trace := trace w @ map (EvRead 1) (?sk @ [x])\<rparr>"
    by (cases w) simp
  finally show "stm32_get_ack_timeout stm timeout w =
        Some (ack_result x,
          w\<lparr>rx := rest, trace := trace w @ map (EvRead 1) (?sk @ [x])\<rparr>)" .
next
  fix skipped x rest t0 ts ck
  assume a: "retrying stm timeout \<and> rx w = skipped @ x # rest \<and>
      set skipped \<subseteq> {Rd_ok [STM32_BUSY], Rd_timedout} \<and>
      (x = Rd_error \<or> (\<exists>b. x = Rd_ok [b] \<and> b \<noteq> STM32_BUSY)) \<and>
      clock w = t0 # ts @ ck \<and> length ts = count_list skipped Rd_timedout \<and>
      (\<forall>t\<in>set ts. t < t0 + timeout)"
  let ?w0 = "w\<lparr>clock := ts @ ck\<rparr>"
  have "stm32_get_ack_timeout stm timeout w = get_ack_loop timeout t0 ?w0"
    using a by (simp add: stm32_get_ack_timeout_def retrying_def time_now_def)
  also have "\<dots> = Some (ack_result x,
      ?w0\<lparr>rx := rest, clock := ck, trace := trace ?w0 @ map (EvRead 1) (skipped @ [x])\<rparr>)"
    using a by (intro get_ack_loop_run [where ts = ts]) (auto simp: retrying_def)
  finally show "stm32_get_ack_timeout stm timeout w =
        Some (ack_result x,
          w\<lparr>rx := rest, clock := ck, trace := trace w @ map (EvRead 1) (skipped @ [x])\<rparr>)"
    by simp
next
  fix skipped rest t0 ts t ck
  assume a: "retrying stm timeout \<and> rx w = skipped @ Rd_timedout # rest \<and>
      set skipped \<subseteq> {Rd_ok [STM32_BUSY], Rd_timedout} \<and>
      clock w = t0 # ts @ t # ck \<and> length ts = count_list skipped Rd_timedout \<and>
      (\<forall>t'\<in>set ts. t' < t0 + timeout) \<and> \<not> t < t0 + timeout"
  let ?w0 = "w\<lparr>clock := ts @ t # ck\<rparr>"
  have "stm32_get_ack_timeout stm timeout w = get_ack_loop timeout t0 ?w0"
    using a by (simp add: stm32_get_ack_timeout_def retrying_def time_now_def)
  also have "\<dots> = Some (STM32_ERR_UNKNOWN,
      ?w0\<lparr>rx := rest, clock := ck,
        trace := trace ?w0 @ map (EvRead 1) (skipped @ [Rd_timedout])\<rparr>)"
    using a by (intro get_ack_loop_deadline [where ts = ts and t = t]) (auto simp: retrying_def)
  finally show "stm32_get_ack_timeout stm timeout w =
        Some (STM32_ERR_UNKNOWN,
          w\<lparr>rx := rest, clock := ck,
            trace := trace w @ map (EvRead 1) (skipped @ [Rd_timedout])\<rparr>)"
    by simp
next
  fix r w'
  assume ret: "stm32_get_ack_timeout stm timeout w = Some (r, w')"
  have "\<exists>skipped x. rx w = skipped @ x # rx w' \<and>
         set skipped \<subseteq> {Rd_ok [STM32_BUSY], Rd_timedout} \<and>
         (\<not> retrying stm timeout \<longrightarrow> Rd_timedout \<notin> set skipped) \<and>
         x \<noteq> Rd_ok [STM32_BUSY] \<and> r = ack_result x"
  proof (cases "retrying stm timeout")
    case True
    with ret obtain t0 w0 where "time_now w = Some (t0, w0)"
      and "get_ack_loop timeout t0 w0 = Some (r, w')"
      by (auto simp: stm32_get_ack_timeout_def retrying_def split: option.splits)
    with get_ack_loop_returns [of timeout t0 w0 r w'] True show ?thesis
      by (auto dest!: time_now_SomeD)
  next
    case False
    with ret have "get_ack_loop 0 0 w = Some (r, w')"
      by (auto simp: stm32_get_ack_timeout_def retrying_def split: if_splits)
    from get_ack_loop_returns [OF this] False show ?thesis by auto
  qed
  then show "\<exists>skipped x. rx w = skipped @ x # rx w' \<and>
         set skipped \<subseteq> {Rd_ok [STM32_BUSY], Rd_timedout} \<and>
         (\<not> retrying stm timeout \<longrightarrow> Rd_timedout \<notin> set skipped) \<and>
         x \<noteq> Rd_ok [STM32_BUSY] \<and> r = ack_result x \<and>
         (r = STM32_ERR_OK \<longleftrightarrow> x = Rd_ok [STM32_ACK]) \<and>
         (r = STM32_ERR_NACK \<longleftrightarrow> x = Rd_ok [STM32_NACK])"
    by (auto simp: ack_result_iff)
qed


theorem get_ack_timeout_verdict_and_retry_witness:
  "stm32_get_ack_timeout ex_stm 1 ex_retry_world =
     Some (STM32_ERR_NACK,
       \<lparr>rx = [], wx = [], clock = [],
        trace = [EvRead 1 Rd_timedout, EvRead 1 Rd_timedout, EvRead 1 (Rd_ok [0x1F])]\<rparr>) \<and>
   stm32_get_ack_timeout ex_stm 1 ex_deadline_world =
     Some (STM32_ERR_UNKNOWN,
       \<lparr>rx = [Rd_ok [0x79]], wx = [], clock = [],
        trace = [EvRead 1 Rd_timedout, EvRead 1 Rd_timedout]\<rparr>) \<and>
   stm32_get_ack_timeout ex_stm 0 ex_deadline_world =
     Some (STM32_ERR_UNKNOWN,
       \<lparr>rx = [Rd_timedout, Rd_ok [0x79]], wx = [], clock = [10, 10, 11],
        trace = [EvRead 1 Rd_timedout]\<rparr>) \<and>
   stm32_get_ack_timeout ex_frame_stm 1
       \<lparr>rx = [Rd_ok [0x76], Rd_ok [0x79], Rd_ok [0x1F]], wx = [], clock = [], trace = []\<rparr> =
     Some (STM32_ERR_OK,
       \<lparr>rx = [Rd_ok [0x1F]], wx = [], clock = [],
        trace = [EvRead 1 (Rd_ok [0x76]), EvRead 1 (Rd_ok [0x79])]\<rparr>) \<and>
   stm32_get_ack_timeout ex_frame_stm 1
       \<lparr>rx = [Rd_error, Rd_ok [0x79]], wx = [], clock = [], trace = []\<rparr> =
     Some (STM32_ERR_UNKNOWN,
       \<lparr>rx = [Rd_ok [0x79]], wx = [], clock = [], trace = [EvRead 1 Rd_error]\<rparr>) \<and>
   (\<exists>skipped x. rx ex_retry_world = skipped @ [x] \<and> STM32_ERR_NACK = ack_result x)"
proof -
  let ?busy_w = "\<lparr>rx = [Rd_ok [0x76], Rd_ok [0x79], Rd_ok [0x1F]], wx = [], clock = [],
      trace = []\<rparr>"
  let ?err_w = "\<lparr>rx = [Rd_error, Rd_ok [0x79]], wx = [], clock = [], trace = []\<rparr>"
  note retry = get_ack_timeout_verdict_and_retry [of ex_stm 1 ex_retry_world,
      THEN conjunct2, THEN conjunct1, rule_format,
      of "[Rd_timedout, Rd_timedout]" "Rd_ok [0x1F]" "[]" 10 "[10, 10]" "[]"]
  note deadline = get_ack_timeout_verdict_and_retry [of ex_stm 1 ex_deadline_world,
      THEN conjunct2, THEN conjunct2, THEN conjunct1, rule_format,
      of "[Rd_timedout]" "[Rd_ok [0x79]]" 10 "[10]" 11 "[]"]
  note no_retry = get_ack_timeout_verdict_and_retry [of ex_stm 0 ex_deadline_world,
      THEN conjunct1, rule_format, of 0 Rd_timedout "[Rd_timedout, Rd_ok [0x79]]"]
  note busy = get_ack_timeout_verdict_and_retry [of ex_frame_stm 1 ?busy_w,
      THEN conjunct1, rule_format, of "Suc 0" "Rd_ok [0x79]" "[Rd_ok [0x1F]]"]
  note err = get_ack_timeout_verdict_and_retry [of ex_frame_stm 1 ?err_w,
      THEN conjunct1, rule_format, of 0 Rd_error "[Rd_ok [0x79]]"]
  have 1: "stm32_get_ack_timeout ex_stm 1 ex_retry_world =
     Some (STM32_ERR_NACK,
       \<lparr>rx = [], wx = [], clock = [],
        trace = [EvRead 1 Rd_timedout, EvRead 1 Rd_timedout, EvRead 1 (Rd_ok [0x1F])]\<rparr>)"
    using retry
    by (simp add: ex_retry_world_def ex_stm_def retrying_def ack_result_def stm32_consts)
  have 2: "stm32_get_ack_timeout ex_stm 1 ex_deadline_world =
     Some (STM32_ERR_UNKNOWN,
       \<lparr>rx = [Rd_ok [0x79]], wx = [], clock = [],
        trace = [EvRead 1 Rd_timedout, EvRead 1 Rd_timedout]\<rparr>)"
    using deadline by (simp add: ex_deadline_world_def ex_stm_def retrying_def)
  have 3: "stm32_get_ack_timeout ex_stm 0 ex_deadline_world =
     Some (STM32_ERR_UNKNOWN,
       \<lparr>rx = [Rd_timedout, Rd_ok [0x79]], wx = [], clock = [10, 10, 11],
        trace = [EvRead 1 Rd_timedout]\<rparr>)"
    using no_retry by (simp add: ex_deadline_world_def retrying_def ack_result_def)
  have 4: "stm32_get_ack_timeout ex_frame_stm 1 ?busy_w =
     Some (STM32_ERR_OK,
       \<lparr>rx = [Rd_ok [0x1F]], wx = [], clock = [],
        trace = [EvRead 1 (Rd_ok [0x76]), EvRead 1 (Rd_ok [0x79])]\<rparr>)"
    using busy
    by (simp add: ex_frame_stm_def ex_stm_def retrying_def ack_result_def stm32_consts)
  have 5: "stm32_get_ack_timeout ex_frame_stm 1 ?err_w =
     Some (STM32_ERR_UNKNOWN,
       \<lparr>rx = [Rd_ok [0x79]], wx = [], clock = [], trace = [EvRead 1 Rd_error]\<rparr>)"
    using err
    by (simp add: ex_frame_stm_def ex_stm_def retrying_def ack_result_def)
  from get_ack_timeout_verdict_and_retry [of ex_stm 1 ex_retry_world,
      THEN conjunct2, THEN conjunct2, THEN conjunct2, rule_format, OF 1]
  have 6: "\<exists>skipped x. rx ex_retry_world = skipped @ [x] \<and> STM32_ERR_NACK = ack_result x"
    by auto
  from 1 2 3 4 5 6 show ?thesis by blast
qed


subsection \<open>Variable-length replies on a frame port\<close>

lemma replicate_Suc_snoc: "x # replicate k x = replicate k x @ [x]"
  by (simp add: replicate_append_same)

lemma resync_loop_writes:
  "resync_loop t0 t1 w = Some (STM32_ERR_OK, w') \<Longrightarrow>
   \<exists>k. writes (trace w') = writes (trace w) @ resync_frame # replicate k resync_frame"
proof (induction "wx w" arbitrary: w t1)
  case Nil
  then show ?case
    by (subst (asm) resync_loop.simps) (simp add: port_write_def split: if_splits)
next
  case (Cons e rest)
  have more: "\<exists>k. writes (trace w') = writes (trace w) @ resync_frame # replicate k resync_frame"
    if "resync_loop t0 t w2 = Some (STM32_ERR_OK, w')" "wx w2 = rest"
      "writes (trace w2) = writes (trace w) @ [resync_frame]" for t w2
  proof -
    from Cons.hyps(1) [of w2 t] that obtain k where
      "writes (trace w') = writes (trace w2) @ resync_frame # replicate k resync_frame"
      by auto
    with that(3) have "writes (trace w') =
        writes (trace w) @ resync_frame # replicate (Suc k) resync_frame"
      by simp
    then show ?thesis by blast
  qed
  have one: "\<exists>k. writes (trace w') = writes (trace w) @ resync_frame # replicate k resync_frame"
    if "writes (trace w') = writes (trace w) @ [resync_frame]"
    using that by (intro exI [of _ 0]) simp
  from Cons.prems Cons.hyps(2) [symmetric] show ?case
    apply (subst (asm) resync_loop.simps)
    apply (clarsimp simp flip: resync_frame_def split: if_splits option.splits prod.splits)
        apply (auto dest!: port_write_SomeD port_read_SomeD time_now_SomeD
                    elim!: more intro: one simp: writes_append)
    done
qed

lemma resync_writes:
  "stm32_resync stm w = Some (STM32_ERR_OK, w') \<Longrightarrow>
   \<exists>k. writes (trace w') = writes (trace w) @ resync_frame # replicate k resync_frame"
  by (auto simp: stm32_resync_def split: option.splits
           dest!: resync_loop_writes time_now_SomeD)


lemma unat_ucast_u8: "unat (ucast (b :: u8) :: u32) = unat b"
proof -
  have "unat b < 2 ^ 32" using unsigned_less [of b, where 'a = nat] by simp
  then show ?thesis by (simp add: unsigned_ucast_eq take_bit_nat_eq_self)
qed

lemma unat_ucast_plus_2: "unat ((ucast (b :: u8) :: u32) + 2) = unat b + 2"
proof -
  have "unat b < 256" using unsigned_less [of b, where 'a = nat] by simp
  then show ?thesis by (simp add: unat_word_ariths unat_ucast_u8)
qed

lemma list_update_seq_nth_below:
  "i < k \<Longrightarrow> list_update_seq buf k bs ! i = buf ! i"
  by (induction bs arbitrary: buf k) auto

lemma list_update_seq_hd:
  "data \<noteq> [] \<Longrightarrow> bs \<noteq> [] \<Longrightarrow> list_update_seq data 0 bs ! 0 = hd bs"
  by (cases bs) (simp_all add: list_update_seq_nth_below)

lemma list_update_seq_Nil [simp]: "list_update_seq data k bs = [] \<longleftrightarrow> data = []"
  using length_list_update_seq [of data k bs] by (metis length_0_conv)

lemma guess_len_restart_OK:
  assumes "guess_len_restart stm c data w = Some (Inr data2, w')" and "data \<noteq> []"
  shows "\<exists>w3 w4 b. stm32_resync stm w = Some (STM32_ERR_OK, w3) \<and>
           stm32_send_command stm c w3 = Some (STM32_ERR_OK, w4) \<and>
           port_read 1 w4 = Some ((PORT_ERR_OK, [b]), w') \<and> data2 ! 0 = b \<and> data2 \<noteq> []"
proof -
  from assms(1) obtain w3 w4 bs where
    r: "stm32_resync stm w = Some (STM32_ERR_OK, w3)"
    and c: "stm32_send_command stm c w3 = Some (STM32_ERR_OK, w4)"
    and rd: "port_read 1 w4 = Some ((PORT_ERR_OK, bs), w')"
    and d: "data2 = list_update_seq data 0 bs"
    by (auto simp: guess_len_restart_def split: option.splits prod.splits if_splits)
  from rd have "length bs = 1" by (auto dest: port_read_SomeD)
  then obtain b where bs: "bs = [b]" by (cases bs) auto
  with r c rd d assms(2) show ?thesis by (auto simp: list_update_seq_hd)
qed

lemma guess_len_restart_Inl:
  "guess_len_restart stm c data w = Some (Inl e, w') \<Longrightarrow> e = STM32_ERR_UNKNOWN"
  by (auto simp: guess_len_restart_def split: option.splits prod.splits if_splits)

lemma replicate_Suc_Cons: "x # replicate k x = replicate (Suc k) x"
  by simp

lemmas ex_eval =
  stm32_send_command_def stm32_send_command_timeout_def stm32_get_ack_def
  stm32_get_ack_timeout_def get_ack_loop.simps stm32_resync_def resync_loop.simps
  port_read_def port_write_def time_now_def

lemma ex_mismatch_run:
  "stm32_guess_len_cmd ex_frame_stm 0x00 (replicate 257 0) 17 ex_mismatch_world =
     Some ((STM32_ERR_OK, list_update_seq (list_update_seq (replicate 257 0) 0 (0x0B # replicate 18 0)) 0 (0x0B # replicate 12 0)),
       \<lparr>rx = [], wx = [], clock = [],
        trace = [EvWrite [0x00, 0xFF], EvRead 1 (Rd_ok [0x79]),
                 EvRead 19 (Rd_ok (0x0B # replicate 18 0)),
                 EvWrite [0xFF, 0x00], EvRead 1 (Rd_ok [0x1F]),
                 EvWrite [0x00, 0xFF], EvRead 1 (Rd_ok [0x79]),
                 EvRead 13 (Rd_ok (0x0B # replicate 12 0))]\<rparr>)"
  by (simp add: stm32_guess_len_cmd_def ex_frame_stm_def ex_stm_def ex_mismatch_world_def
        ex_eval stm32_consts list_update_seq_hd list_update_seq_nth_below Let_def)

lemma ex_failed_read_run:
  "stm32_guess_len_cmd ex_frame_stm 0x00 (replicate 257 0) 17 ex_failed_read_world =
     Some ((STM32_ERR_OK, list_update_seq (list_update_seq (replicate 257 0) 0 [0x0B]) 0 (0x0B # replicate 12 0)),
       \<lparr>rx = [], wx = [], clock = [],
        trace = [EvWrite [0x00, 0xFF], EvRead 1 (Rd_ok [0x79]),
                 EvRead 19 Rd_timedout,
                 EvWrite [0xFF, 0x00], EvRead 1 (Rd_ok [0x1F]),
                 EvWrite [0x00, 0xFF], EvRead 1 (Rd_ok [0x79]),
                 EvRead 1 (Rd_ok [0x0B]),
                 EvWrite [0xFF, 0x00], EvRead 1 (Rd_ok [0x1F]),
                 EvWrite [0x00, 0xFF], EvRead 1 (Rd_ok [0x79]),
                 EvRead 13 (Rd_ok (0x0B # replicate 12 0))]\<rparr>)"
  by (simp add: stm32_guess_len_cmd_def guess_len_restart_def ex_frame_stm_def ex_stm_def
        ex_failed_read_world_def ex_eval stm32_consts list_update_seq_hd list_update_seq_nth_below Let_def)


lemma ex_match_run:
  "stm32_guess_len_cmd ex_frame_stm 0x00 (replicate 257 0) 17 ex_match_world =
     Some ((STM32_ERR_OK, list_update_seq (replicate 257 0) 0 (0x11 # replicate 18 0)),
       \<lparr>rx = [], wx = [], clock = [],
        trace = [EvWrite [0x00, 0xFF], EvRead 1 (Rd_ok [0x79]),
                 EvRead 19 (Rd_ok (0x11 # replicate 18 0))]\<rparr>)"
  by (simp add: stm32_guess_len_cmd_def ex_frame_stm_def ex_stm_def ex_match_world_def
        ex_eval stm32_consts list_update_seq_hd list_update_seq_nth_below Let_def)

text \<open>
  Claim C5, as stated, fails when the first read succeeds with a leading byte other than the
  guess: the code then skips the block that resyncs, re-sends and reads one byte, since the
  length is already in \<^verbatim>\<open>data[0]\<close>. On the wire there is one resync and no one-byte
  discovery read: command, ACK, 19-byte frame, resync, NACK, command, ACK, 13-byte frame.
\<close>

theorem guess_len_frame_port_counterexample:
  "PORT_BYTE \<notin> flags (port ex_frame_stm) \<and>
   fst (fst (the (stm32_guess_len_cmd ex_frame_stm 0x00 (replicate 257 0) 17
      ex_mismatch_world))) = STM32_ERR_OK \<and>
   trace (snd (the (stm32_guess_len_cmd ex_frame_stm 0x00 (replicate 257 0) 17
      ex_mismatch_world))) =
     [EvWrite [0x00, 0xFF], EvRead 1 (Rd_ok [0x79]),
      EvRead 19 (Rd_ok (0x0B # replicate 18 0)),
      EvWrite [0xFF, 0x00], EvRead 1 (Rd_ok [0x1F]),
      EvWrite [0x00, 0xFF], EvRead 1 (Rd_ok [0x79]),
      EvRead 13 (Rd_ok (0x0B # replicate 12 0))] \<and>
   writes (trace (snd (the (stm32_guess_len_cmd ex_frame_stm 0x00 (replicate 257 0) 17
      ex_mismatch_world)))) = [[0x00, 0xFF], [0xFF, 0x00], [0x00, 0xFF]]"
  by (simp add: ex_mismatch_run) (simp add: ex_frame_stm_def)

lemma guess_len_ok_wire:
  assumes frame: "PORT_BYTE \<notin> flags (port stm)"
    and buf: "length data = 257" and guess: "len \<le> 255"
    and cmd1: "stm32_send_command stm c w = Some (STM32_ERR_OK, w1)"
    and rd1: "port_read (unat (len + 2)) w1 = Some ((p, bs), w2)"
    and ok: "stm32_guess_len_cmd stm c data len w = Some ((STM32_ERR_OK, data'), w')"
  shows
   "(p \<noteq> PORT_ERR_OK \<longrightarrow>
       (\<exists>w3 w4 b w5 w6 w7 bs'.
          stm32_resync stm w2 = Some (STM32_ERR_OK, w3) \<and>
          stm32_send_command stm c w3 = Some (STM32_ERR_OK, w4) \<and>
          port_read 1 w4 = Some ((PORT_ERR_OK, [b]), w5) \<and>
          stm32_resync stm w5 = Some (STM32_ERR_OK, w6) \<and>
          stm32_send_command stm c w6 = Some (STM32_ERR_OK, w7) \<and>
          port_read (unat b + 2) w7 = Some ((PORT_ERR_OK, bs'), w')) \<and>
       (\<exists>k1 k2. writes (trace w') =
          writes (trace w) @ [cmd_frame c] @ replicate (Suc k1) resync_frame @
          [cmd_frame c] @ replicate (Suc k2) resync_frame @ [cmd_frame c])) \<and>
    (p = PORT_ERR_OK \<and> len \<noteq> ucast (hd bs) \<longrightarrow>
       (\<exists>w3 w4 bs'.
          stm32_resync stm w2 = Some (STM32_ERR_OK, w3) \<and>
          stm32_send_command stm c w3 = Some (STM32_ERR_OK, w4) \<and>
          port_read (unat (hd bs) + 2) w4 = Some ((PORT_ERR_OK, bs'), w')) \<and>
       (\<exists>k. writes (trace w') =
          writes (trace w) @ [cmd_frame c] @ replicate (Suc k) resync_frame @ [cmd_frame c])) \<and>
    (p = PORT_ERR_OK \<and> len = ucast (hd bs) \<longrightarrow>
       w' = w2 \<and> writes (trace w') = writes (trace w) @ [cmd_frame c])"
proof -
  have data: "data \<noteq> []" using buf by auto
  have ws1: "writes (trace w1) = writes (trace w) @ [cmd_frame c]"
    using send_command_writes [OF cmd1] by (simp add: cmd_frame_def)
  have ws2: "writes (trace w2) = writes (trace w1)"
    using port_read_writes [OF rd1] .
  have "unat len \<le> 255" using guess by (simp add: word_le_nat_alt)
  then have n: "unat (len + 2) = unat len + 2" by (simp add: unat_word_ariths)
  have bs: "bs \<noteq> []" if "p = PORT_ERR_OK"
    using port_read_SomeD [OF rd1] that n by auto
  have d0: "list_update_seq data 0 bs ! 0 = hd bs" if "p = PORT_ERR_OK"
    using list_update_seq_hd [OF data bs [OF that]] .
  note unfolded = ok [unfolded stm32_guess_len_cmd_def] frame cmd1 rd1
  show ?thesis
  proof (intro conjI impI)
    assume "p = PORT_ERR_OK \<and> len = ucast (hd bs)"
    with unfolded d0 ws1 ws2
    have "w' = w2 \<and> writes (trace w') = writes (trace w) @ [cmd_frame c]"
      by (auto simp: Let_def split: option.splits prod.splits if_splits)
    then show "w' = w2" and "writes (trace w') = writes (trace w) @ [cmd_frame c]"
      by blast+
  next
    assume a: "p = PORT_ERR_OK \<and> len \<noteq> ucast (hd bs)"
    with unfolded d0 obtain w3 w4 bs' where
      r: "stm32_resync stm w2 = Some (STM32_ERR_OK, w3)"
      and c: "stm32_send_command stm c w3 = Some (STM32_ERR_OK, w4)"
      and rd: "port_read (unat (hd bs) + 2) w4 = Some ((PORT_ERR_OK, bs'), w')"
      by (auto simp: Let_def unat_ucast_plus_2 split: option.splits prod.splits if_splits)
    then show "\<exists>w3 w4 bs'.
          stm32_resync stm w2 = Some (STM32_ERR_OK, w3) \<and>
          stm32_send_command stm c w3 = Some (STM32_ERR_OK, w4) \<and>
          port_read (unat (hd bs) + 2) w4 = Some ((PORT_ERR_OK, bs'), w')"
      by blast
    from resync_writes [OF r] obtain k where
      "writes (trace w3) = writes (trace w2) @ replicate (Suc k) resync_frame"
      by auto
    with send_command_writes [OF c] port_read_writes [OF rd] ws1 ws2
    have "writes (trace w') =
        writes (trace w) @ [cmd_frame c] @ replicate (Suc k) resync_frame @ [cmd_frame c]"
      by (simp add: cmd_frame_def)
    then show "\<exists>k. writes (trace w') =
        writes (trace w) @ [cmd_frame c] @ replicate (Suc k) resync_frame @ [cmd_frame c]"
      by blast
  next
    assume a: "p \<noteq> PORT_ERR_OK"
    with unfolded obtain data2 w5 w6 w7 bs' where
      g: "guess_len_restart stm c data w2 = Some (Inr data2, w5)"
      and r2: "stm32_resync stm w5 = Some (STM32_ERR_OK, w6)"
      and c2: "stm32_send_command stm c w6 = Some (STM32_ERR_OK, w7)"
      and rd2: "port_read (unat ((ucast (data2 ! 0) :: u32) + 2)) w7 =
          Some ((PORT_ERR_OK, bs'), w')"
      by (auto simp: Let_def split: option.splits prod.splits if_splits sum.splits
               dest: guess_len_restart_Inl)
    from guess_len_restart_OK [OF g data] obtain w3 w4 b where
      r1: "stm32_resync stm w2 = Some (STM32_ERR_OK, w3)"
      and c1: "stm32_send_command stm c w3 = Some (STM32_ERR_OK, w4)"
      and rd: "port_read 1 w4 = Some ((PORT_ERR_OK, [b]), w5)" and b: "data2 ! 0 = b"
      by blast
    from rd2 b have rd2': "port_read (unat b + 2) w7 = Some ((PORT_ERR_OK, bs'), w')"
      by (simp add: unat_ucast_plus_2)
    from r1 c1 rd r2 c2 rd2' show "\<exists>w3 w4 b w5 w6 w7 bs'.
          stm32_resync stm w2 = Some (STM32_ERR_OK, w3) \<and>
          stm32_send_command stm c w3 = Some (STM32_ERR_OK, w4) \<and>
          port_read 1 w4 = Some ((PORT_ERR_OK, [b]), w5) \<and>
          stm32_resync stm w5 = Some (STM32_ERR_OK, w6) \<and>
          stm32_send_command stm c w6 = Some (STM32_ERR_OK, w7) \<and>
          port_read (unat b + 2) w7 = Some ((PORT_ERR_OK, bs'), w')"
      by blast
    from resync_writes [OF r1] obtain k1 where
      k1: "writes (trace w3) = writes (trace w2) @ replicate (Suc k1) resync_frame"
      by auto
    from resync_writes [OF r2] obtain k2 where
      k2: "writes (trace w6) = writes (trace w5) @ replicate (Suc k2) resync_frame"
      by auto
    from k1 k2 send_command_writes [OF c1] send_command_writes [OF c2]
      port_read_writes [OF rd] port_read_writes [OF rd2'] ws1 ws2
    have "writes (trace w') =
          writes (trace w) @ [cmd_frame c] @ replicate (Suc k1) resync_frame @
          [cmd_frame c] @ replicate (Suc k2) resync_frame @ [cmd_frame c]"
      by (simp add: cmd_frame_def)
    then show "\<exists>k1 k2. writes (trace w') =
          writes (trace w) @ [cmd_frame c] @ replicate (Suc k1) resync_frame @
          [cmd_frame c] @ replicate (Suc k2) resync_frame @ [cmd_frame c]"
      by blast
  qed
qed

lemma restart_steps:
  "guess_len_restart stm c data w =
     (case do_steps stm [Resync, Send c, Read 1] w of
        None \<Rightarrow> None
      | Some (None, w') \<Rightarrow> Some (Inl STM32_ERR_UNKNOWN, w')
      | Some (Some b, w') \<Rightarrow> Some (Inr (list_update_seq data 0 b), w'))"
  by (simp add: guess_len_restart_def split: option.splits prod.splits)

lemma final_steps:
  "(case stm32_resync stm w3 of
      None \<Rightarrow> None
    | Some (e4, w4) \<Rightarrow>
        if e4 \<noteq> STM32_ERR_OK then Some ((STM32_ERR_UNKNOWN, data2), w4)
        else
          (case stm32_send_command stm c w4 of
             None \<Rightarrow> None
           | Some (e5, w5) \<Rightarrow>
               if e5 \<noteq> STM32_ERR_OK then Some ((STM32_ERR_UNKNOWN, data2), w5)
               else
                 (case port_read n w5 of
                    None \<Rightarrow> None
                  | Some ((p6, bs6), w6) \<Rightarrow>
                      if p6 \<noteq> PORT_ERR_OK then Some ((STM32_ERR_UNKNOWN, data2), w6)
                      else Some ((STM32_ERR_OK, list_update_seq data2 0 bs6), w6)))) =
   (case do_steps stm [Resync, Send c, Read n] w3 of
      None \<Rightarrow> None
    | Some (None, w') \<Rightarrow> Some ((STM32_ERR_UNKNOWN, data2), w')
    | Some (Some bs', w') \<Rightarrow> Some ((STM32_ERR_OK, list_update_seq data2 0 bs'), w'))"
  by (simp split: option.splits prod.splits)

lemma do_steps_read_one:
  "do_steps stm [Resync, Send c, Read 1] w = Some (Some b, w') \<Longrightarrow> length b = 1"
  by (auto split: option.splits prod.splits if_splits dest: port_read_SomeD)


lemma guess_len_failed_read:
  assumes "PORT_BYTE \<notin> flags (port stm)" and "data \<noteq> []"
    and "stm32_send_command stm c w = Some (STM32_ERR_OK, w1)"
    and "port_read (unat (len + 2)) w1 = Some ((p, bs), w2)" and "p \<noteq> PORT_ERR_OK"
  shows "stm32_guess_len_cmd stm c data len w =
     (case do_steps stm [Resync, Send c, Read 1] w2 of
        None \<Rightarrow> None
      | Some (None, w5) \<Rightarrow> Some ((STM32_ERR_UNKNOWN, data), w5)
      | Some (Some b, w5) \<Rightarrow>
          (case do_steps stm [Resync, Send c, Read (unat (hd b) + 2)] w5 of
             None \<Rightarrow> None
           | Some (None, w') \<Rightarrow> Some ((STM32_ERR_UNKNOWN, list_update_seq data 0 b), w')
           | Some (Some bs', w') \<Rightarrow>
               Some ((STM32_ERR_OK, list_update_seq (list_update_seq data 0 b) 0 bs'), w')))"
proof (cases "do_steps stm [Resync, Send c, Read 1] w2")
  case None
  then show ?thesis
    unfolding stm32_guess_len_cmd_def Let_def final_steps restart_steps
    using assms by (simp del: do_steps.simps)
next
  case (Some r)
  obtain ob w5 where r: "r = (ob, w5)" by (cases r)
  show ?thesis
  proof (cases ob)
    case None
    with Some r show ?thesis
      unfolding stm32_guess_len_cmd_def Let_def final_steps restart_steps
      using assms by (simp del: do_steps.simps)
  next
    case (Some b)
    with \<open>do_steps stm [Resync, Send c, Read 1] w2 = Some r\<close> r
    have st: "do_steps stm [Resync, Send c, Read 1] w2 = Some (Some b, w5)" by simp
    from do_steps_read_one [OF st] have "b \<noteq> []" by auto
    with assms(2) have n: "unat ((ucast (list_update_seq data 0 b ! 0) :: u32) + 2) = unat (hd b) + 2"
      by (simp add: unat_ucast_plus_2 list_update_seq_hd)
    show ?thesis
      unfolding stm32_guess_len_cmd_def Let_def final_steps restart_steps
      using assms st by (simp add: n del: do_steps.simps)
  qed
qed

lemma guess_len_mismatch:
  assumes "PORT_BYTE \<notin> flags (port stm)" and "data \<noteq> []" and "len \<le> 255"
    and "stm32_send_command stm c w = Some (STM32_ERR_OK, w1)"
    and "port_read (unat (len + 2)) w1 = Some ((PORT_ERR_OK, bs), w2)"
  shows "stm32_guess_len_cmd stm c data len w =
     (if len = ucast (hd bs) then Some ((STM32_ERR_OK, list_update_seq data 0 bs), w2)
      else
        (case do_steps stm [Resync, Send c, Read (unat (hd bs) + 2)] w2 of
           None \<Rightarrow> None
         | Some (None, w') \<Rightarrow> Some ((STM32_ERR_UNKNOWN, list_update_seq data 0 bs), w')
         | Some (Some bs', w') \<Rightarrow>
             Some ((STM32_ERR_OK, list_update_seq (list_update_seq data 0 bs) 0 bs'), w')))"
proof -
  from assms(3) have "unat len \<le> 255" by (simp add: word_le_nat_alt)
  then have "unat (len + 2) = unat len + 2" by (simp add: unat_word_ariths)
  with assms(5) have "length bs = unat len + 2" by (auto dest: port_read_SomeD)
  then have "bs \<noteq> []" by auto
  with assms(2) have h: "list_update_seq data 0 bs ! 0 = hd bs" by (simp add: list_update_seq_hd)
  have n: "unat ((ucast (hd bs) :: u32) + 2) = unat (hd bs) + 2" by (rule unat_ucast_plus_2)
  show ?thesis
    unfolding stm32_guess_len_cmd_def Let_def final_steps
    using assms by (simp add: h n del: do_steps.simps)
qed


text \<open>
  Claim C5, amended. On a frame port, with the 257-byte buffer and a guess of at most 255,
  after the command was acknowledged and the first read of \<open>L + 2\<close> bytes was made, the call
  does exactly the following, whatever it returns. If that read failed: Resync, the command
  again and a read of one byte \<open>b\<close>, then Resync once more, the command again and the final
  read of \<open>b + 2\<close> bytes. If that read succeeded with a leading byte other than the guess:
  Resync once, the command again and the final read of that byte plus 2, with no one-byte
  read and no second Resync. Each step is done only after the previous one succeeded; the
  call returns Unknown at the first step that fails and Ok when the final read succeeds. If
  the first read succeeded with the guessed leading byte, the call returns Ok and nothing
  more is read or written. On the wire a call that returns Ok has written the command, one
  or more invalid commands, the command (and once more one or more invalid commands, the
  command, after a failed first read).
\<close>

theorem guess_len_frame_port:
  assumes frame: "PORT_BYTE \<notin> flags (port stm)"
    and buf: "length data = 257" and guess: "len \<le> 255"
    and cmd1: "stm32_send_command stm c w = Some (STM32_ERR_OK, w1)"
    and rd1: "port_read (unat (len + 2)) w1 = Some ((p, bs), w2)"
  shows
   "(p \<noteq> PORT_ERR_OK \<longrightarrow>
       stm32_guess_len_cmd stm c data len w =
         (case do_steps stm [Resync, Send c, Read 1] w2 of
            None \<Rightarrow> None
          | Some (None, w5) \<Rightarrow> Some ((STM32_ERR_UNKNOWN, data), w5)
          | Some (Some b, w5) \<Rightarrow>
              (case do_steps stm [Resync, Send c, Read (unat (hd b) + 2)] w5 of
                 None \<Rightarrow> None
               | Some (None, w') \<Rightarrow> Some ((STM32_ERR_UNKNOWN, list_update_seq data 0 b), w')
               | Some (Some bs', w') \<Rightarrow>
                   Some ((STM32_ERR_OK,
                          list_update_seq (list_update_seq data 0 b) 0 bs'), w')))) \<and>
    (p = PORT_ERR_OK \<and> len \<noteq> ucast (hd bs) \<longrightarrow>
       stm32_guess_len_cmd stm c data len w =
         (case do_steps stm [Resync, Send c, Read (unat (hd bs) + 2)] w2 of
            None \<Rightarrow> None
          | Some (None, w') \<Rightarrow> Some ((STM32_ERR_UNKNOWN, list_update_seq data 0 bs), w')
          | Some (Some bs', w') \<Rightarrow>
              Some ((STM32_ERR_OK, list_update_seq (list_update_seq data 0 bs) 0 bs'), w'))) \<and>
    (p = PORT_ERR_OK \<and> len = ucast (hd bs) \<longrightarrow>
       stm32_guess_len_cmd stm c data len w =
         Some ((STM32_ERR_OK, list_update_seq data 0 bs), w2)) \<and>
    (\<forall>data' w'. stm32_guess_len_cmd stm c data len w = Some ((STM32_ERR_OK, data'), w') \<longrightarrow>
       (p \<noteq> PORT_ERR_OK \<longrightarrow>
          (\<exists>k1 k2. writes (trace w') =
             writes (trace w) @ [cmd_frame c] @ replicate (Suc k1) resync_frame @
             [cmd_frame c] @ replicate (Suc k2) resync_frame @ [cmd_frame c])) \<and>
       (p = PORT_ERR_OK \<and> len \<noteq> ucast (hd bs) \<longrightarrow>
          (\<exists>k. writes (trace w') =
             writes (trace w) @ [cmd_frame c] @ replicate (Suc k) resync_frame @
             [cmd_frame c])) \<and>
       (p = PORT_ERR_OK \<and> len = ucast (hd bs) \<longrightarrow>
          writes (trace w') = writes (trace w) @ [cmd_frame c]))"
proof -
  have ne: "data \<noteq> []" using buf by auto
  have 1: "stm32_guess_len_cmd stm c data len w =
         (case do_steps stm [Resync, Send c, Read 1] w2 of
            None \<Rightarrow> None
          | Some (None, w5) \<Rightarrow> Some ((STM32_ERR_UNKNOWN, data), w5)
          | Some (Some b, w5) \<Rightarrow>
              (case do_steps stm [Resync, Send c, Read (unat (hd b) + 2)] w5 of
                 None \<Rightarrow> None
               | Some (None, w') \<Rightarrow> Some ((STM32_ERR_UNKNOWN, list_update_seq data 0 b), w')
               | Some (Some bs', w') \<Rightarrow>
                   Some ((STM32_ERR_OK,
                          list_update_seq (list_update_seq data 0 b) 0 bs'), w')))"
    if "p \<noteq> PORT_ERR_OK"
    by (rule guess_len_failed_read [OF frame ne cmd1 rd1 that])
  have 2: "stm32_guess_len_cmd stm c data len w =
     (if len = ucast (hd bs) then Some ((STM32_ERR_OK, list_update_seq data 0 bs), w2)
      else
        (case do_steps stm [Resync, Send c, Read (unat (hd bs) + 2)] w2 of
           None \<Rightarrow> None
         | Some (None, w') \<Rightarrow> Some ((STM32_ERR_UNKNOWN, list_update_seq data 0 bs), w')
         | Some (Some bs', w') \<Rightarrow>
             Some ((STM32_ERR_OK, list_update_seq (list_update_seq data 0 bs) 0 bs'), w')))"
    if "p = PORT_ERR_OK"
    using rd1 that by (intro guess_len_mismatch [OF frame ne guess cmd1]) simp
  have 3: "(p \<noteq> PORT_ERR_OK \<longrightarrow>
          (\<exists>k1 k2. writes (trace w') =
             writes (trace w) @ [cmd_frame c] @ replicate (Suc k1) resync_frame @
             [cmd_frame c] @ replicate (Suc k2) resync_frame @ [cmd_frame c])) \<and>
       (p = PORT_ERR_OK \<and> len \<noteq> ucast (hd bs) \<longrightarrow>
          (\<exists>k. writes (trace w') =
             writes (trace w) @ [cmd_frame c] @ replicate (Suc k) resync_frame @
             [cmd_frame c])) \<and>
       (p = PORT_ERR_OK \<and> len = ucast (hd bs) \<longrightarrow>
          writes (trace w') = writes (trace w) @ [cmd_frame c])"
    if "stm32_guess_len_cmd stm c data len w = Some ((STM32_ERR_OK, data'), w')" for data' w'
    using guess_len_ok_wire [OF frame buf guess cmd1 rd1 that] by blast
  show ?thesis
  proof (intro conjI allI impI)
    assume "p \<noteq> PORT_ERR_OK"
    then show "stm32_guess_len_cmd stm c data len w =
         (case do_steps stm [Resync, Send c, Read 1] w2 of
            None \<Rightarrow> None
          | Some (None, w5) \<Rightarrow> Some ((STM32_ERR_UNKNOWN, data), w5)
          | Some (Some b, w5) \<Rightarrow>
              (case do_steps stm [Resync, Send c, Read (unat (hd b) + 2)] w5 of
                 None \<Rightarrow> None
               | Some (None, w') \<Rightarrow> Some ((STM32_ERR_UNKNOWN, list_update_seq data 0 b), w')
               | Some (Some bs', w') \<Rightarrow>
                   Some ((STM32_ERR_OK,
                          list_update_seq (list_update_seq data 0 b) 0 bs'), w')))"
      by (rule 1)
  next
    assume "p = PORT_ERR_OK \<and> len \<noteq> ucast (hd bs)"
    with 2 show "stm32_guess_len_cmd stm c data len w =
         (case do_steps stm [Resync, Send c, Read (unat (hd bs) + 2)] w2 of
            None \<Rightarrow> None
          | Some (None, w') \<Rightarrow> Some ((STM32_ERR_UNKNOWN, list_update_seq data 0 bs), w')
          | Some (Some bs', w') \<Rightarrow>
              Some ((STM32_ERR_OK, list_update_seq (list_update_seq data 0 bs) 0 bs'), w'))"
      by simp
  next
    assume "p = PORT_ERR_OK \<and> len = ucast (hd bs)"
    with 2 show "stm32_guess_len_cmd stm c data len w =
         Some ((STM32_ERR_OK, list_update_seq data 0 bs), w2)"
      by simp
  next
    fix data' w'
    assume ok: "stm32_guess_len_cmd stm c data len w = Some ((STM32_ERR_OK, data'), w')"
    {
      assume "p \<noteq> PORT_ERR_OK"
      with 3 [OF ok] show "\<exists>k1 k2. writes (trace w') =
             writes (trace w) @ [cmd_frame c] @ replicate (Suc k1) resync_frame @
             [cmd_frame c] @ replicate (Suc k2) resync_frame @ [cmd_frame c]"
        by blast
    next
      assume "p = PORT_ERR_OK \<and> len \<noteq> ucast (hd bs)"
      with 3 [OF ok] show "\<exists>k. writes (trace w') =
             writes (trace w) @ [cmd_frame c] @ replicate (Suc k) resync_frame @
             [cmd_frame c]"
        by blast
    next
      assume "p = PORT_ERR_OK \<and> len = ucast (hd bs)"
      with 3 [OF ok] show "writes (trace w') = writes (trace w) @ [cmd_frame c]"
        by blast
    }
  qed
qed


theorem guess_len_frame_port_witness:
  "stm32_guess_len_cmd ex_frame_stm 0x00 (replicate 257 0) 17 ex_mismatch_world =
     (case do_steps ex_frame_stm
             [Resync, Send 0x00, Read (unat (hd (0x0B # replicate 18 (0 :: u8))) + 2)]
             \<lparr>rx = [Rd_ok [0x1F], Rd_ok [0x79], Rd_ok (0x0B # replicate 12 0)],
              wx = [PORT_ERR_OK, PORT_ERR_OK], clock = [0],
              trace = [EvWrite [0x00, 0xFF], EvRead 1 (Rd_ok [0x79]),
                       EvRead 19 (Rd_ok (0x0B # replicate 18 0))]\<rparr> of
        None \<Rightarrow> None
      | Some (None, w') \<Rightarrow>
          Some ((STM32_ERR_UNKNOWN,
                 list_update_seq (replicate 257 0) 0 (0x0B # replicate 18 0)), w')
      | Some (Some bs', w') \<Rightarrow>
          Some ((STM32_ERR_OK,
                 list_update_seq (list_update_seq (replicate 257 0) 0 (0x0B # replicate 18 0))
                   0 bs'), w')) \<and>
   (\<exists>k. writes (trace (snd (the (stm32_guess_len_cmd ex_frame_stm 0x00 (replicate 257 0) 17
             ex_mismatch_world)))) =
        writes (trace ex_mismatch_world) @ [cmd_frame 0x00] @
        replicate (Suc k) resync_frame @ [cmd_frame 0x00]) \<and>
   stm32_guess_len_cmd ex_frame_stm 0x00 (replicate 257 0) 17 ex_failed_read_world =
     (case do_steps ex_frame_stm [Resync, Send 0x00, Read 1]
             \<lparr>rx = [Rd_ok [0x1F], Rd_ok [0x79], Rd_ok [0x0B], Rd_ok [0x1F],
                    Rd_ok [0x79], Rd_ok (0x0B # replicate 12 0)],
              wx = [PORT_ERR_OK, PORT_ERR_OK, PORT_ERR_OK, PORT_ERR_OK], clock = [0, 0],
              trace = [EvWrite [0x00, 0xFF], EvRead 1 (Rd_ok [0x79]),
                       EvRead 19 Rd_timedout]\<rparr> of
        None \<Rightarrow> None
      | Some (None, w5) \<Rightarrow> Some ((STM32_ERR_UNKNOWN, replicate 257 0), w5)
      | Some (Some b, w5) \<Rightarrow>
          (case do_steps ex_frame_stm [Resync, Send 0x00, Read (unat (hd b) + 2)] w5 of
             None \<Rightarrow> None
           | Some (None, w') \<Rightarrow>
               Some ((STM32_ERR_UNKNOWN, list_update_seq (replicate 257 0) 0 b), w')
           | Some (Some bs', w') \<Rightarrow>
               Some ((STM32_ERR_OK,
                      list_update_seq (list_update_seq (replicate 257 0) 0 b) 0 bs'), w'))) \<and>
   (\<exists>k1 k2. writes (trace (snd (the (stm32_guess_len_cmd ex_frame_stm 0x00 (replicate 257 0) 17
             ex_failed_read_world)))) =
        writes (trace ex_failed_read_world) @ [cmd_frame 0x00] @
        replicate (Suc k1) resync_frame @ [cmd_frame 0x00] @
        replicate (Suc k2) resync_frame @ [cmd_frame 0x00]) \<and>
   stm32_guess_len_cmd ex_frame_stm 0x00 (replicate 257 0) 17 ex_match_world =
     Some ((STM32_ERR_OK, list_update_seq (replicate 257 0) 0 (0x11 # replicate 18 0)),
       \<lparr>rx = [], wx = [], clock = [],
        trace = [EvWrite [0x00, 0xFF], EvRead 1 (Rd_ok [0x79]),
                 EvRead 19 (Rd_ok (0x11 # replicate 18 0))]\<rparr>)"
proof (intro conjI)
  have frame: "PORT_BYTE \<notin> flags (port ex_frame_stm)" by (simp add: ex_frame_stm_def)
  have buf: "length (replicate 257 (0 :: u8)) = 257" and guess: "(17 :: u32) \<le> 255"
    by simp_all
  let ?w1 = "\<lparr>rx = [Rd_ok (0x0B # replicate 18 0), Rd_ok [0x1F], Rd_ok [0x79],
                     Rd_ok (0x0B # replicate 12 0)],
               wx = [PORT_ERR_OK, PORT_ERR_OK], clock = [0],
               trace = [EvWrite [0x00, 0xFF], EvRead 1 (Rd_ok [0x79])]\<rparr>"
  let ?w2 = "\<lparr>rx = [Rd_ok [0x1F], Rd_ok [0x79], Rd_ok (0x0B # replicate 12 0)],
               wx = [PORT_ERR_OK, PORT_ERR_OK], clock = [0],
               trace = [EvWrite [0x00, 0xFF], EvRead 1 (Rd_ok [0x79]),
                        EvRead 19 (Rd_ok (0x0B # replicate 18 0))]\<rparr>"
  have cmd1: "stm32_send_command ex_frame_stm 0x00 ex_mismatch_world = Some (STM32_ERR_OK, ?w1)"
    by (simp add: ex_frame_stm_def ex_stm_def ex_mismatch_world_def ex_eval stm32_consts)
  have rd1: "port_read (unat ((17 :: u32) + 2)) ?w1 =
      Some ((PORT_ERR_OK, 0x0B # replicate 18 0), ?w2)"
    by (simp add: port_read_def)
  note t = guess_len_frame_port [OF frame buf guess cmd1 rd1]
  have prem: "PORT_ERR_OK = PORT_ERR_OK \<and> (17 :: u32) \<noteq> ucast (hd (0x0B # replicate 18 (0 :: u8)))"
    by simp
  show "stm32_guess_len_cmd ex_frame_stm 0x00 (replicate 257 0) 17 ex_mismatch_world =
     (case do_steps ex_frame_stm
             [Resync, Send 0x00, Read (unat (hd (0x0B # replicate 18 (0 :: u8))) + 2)] ?w2 of
        None \<Rightarrow> None
      | Some (None, w') \<Rightarrow>
          Some ((STM32_ERR_UNKNOWN,
                 list_update_seq (replicate 257 0) 0 (0x0B # replicate 18 0)), w')
      | Some (Some bs', w') \<Rightarrow>
          Some ((STM32_ERR_OK,
                 list_update_seq (list_update_seq (replicate 257 0) 0 (0x0B # replicate 18 0))
                   0 bs'), w'))"
    by (rule t [THEN conjunct2, THEN conjunct1, THEN mp, OF prem])
  note t [THEN conjunct2, THEN conjunct2, THEN conjunct2, THEN spec, THEN spec, THEN mp,
      OF ex_mismatch_run, THEN conjunct2, THEN conjunct1, THEN mp, OF prem]
  then show "\<exists>k. writes (trace (snd (the (stm32_guess_len_cmd ex_frame_stm 0x00 (replicate 257 0) 17
             ex_mismatch_world)))) =
        writes (trace ex_mismatch_world) @ [cmd_frame 0x00] @
        replicate (Suc k) resync_frame @ [cmd_frame 0x00]"
    unfolding ex_mismatch_run option.sel snd_conv .
next
  have frame: "PORT_BYTE \<notin> flags (port ex_frame_stm)" by (simp add: ex_frame_stm_def)
  have buf: "length (replicate 257 (0 :: u8)) = 257" and guess: "(17 :: u32) \<le> 255"
    by simp_all
  let ?w1 = "\<lparr>rx = [Rd_timedout, Rd_ok [0x1F], Rd_ok [0x79], Rd_ok [0x0B], Rd_ok [0x1F],
                     Rd_ok [0x79], Rd_ok (0x0B # replicate 12 0)],
               wx = [PORT_ERR_OK, PORT_ERR_OK, PORT_ERR_OK, PORT_ERR_OK], clock = [0, 0],
               trace = [EvWrite [0x00, 0xFF], EvRead 1 (Rd_ok [0x79])]\<rparr>"
  let ?w2 = "\<lparr>rx = [Rd_ok [0x1F], Rd_ok [0x79], Rd_ok [0x0B], Rd_ok [0x1F],
                     Rd_ok [0x79], Rd_ok (0x0B # replicate 12 0)],
               wx = [PORT_ERR_OK, PORT_ERR_OK, PORT_ERR_OK, PORT_ERR_OK], clock = [0, 0],
               trace = [EvWrite [0x00, 0xFF], EvRead 1 (Rd_ok [0x79]),
                        EvRead 19 Rd_timedout]\<rparr>"
  have cmd1: "stm32_send_command ex_frame_stm 0x00 ex_failed_read_world =
      Some (STM32_ERR_OK, ?w1)"
    by (simp add: ex_frame_stm_def ex_stm_def ex_failed_read_world_def ex_eval stm32_consts)
  have rd1: "port_read (unat ((17 :: u32) + 2)) ?w1 = Some ((PORT_ERR_TIMEDOUT, []), ?w2)"
    by (simp add: port_read_def)
  note t = guess_len_frame_port [OF frame buf guess cmd1 rd1]
  have prem: "PORT_ERR_TIMEDOUT \<noteq> PORT_ERR_OK" by simp
  show "stm32_guess_len_cmd ex_frame_stm 0x00 (replicate 257 0) 17 ex_failed_read_world =
     (case do_steps ex_frame_stm [Resync, Send 0x00, Read 1] ?w2 of
        None \<Rightarrow> None
      | Some (None, w5) \<Rightarrow> Some ((STM32_ERR_UNKNOWN, replicate 257 0), w5)
      | Some (Some b, w5) \<Rightarrow>
          (case do_steps ex_frame_stm [Resync, Send 0x00, Read (unat (hd b) + 2)] w5 of
             None \<Rightarrow> None
           | Some (None, w') \<Rightarrow>
               Some ((STM32_ERR_UNKNOWN, list_update_seq (replicate 257 0) 0 b), w')
           | Some (Some bs', w') \<Rightarrow>
               Some ((STM32_ERR_OK,
                      list_update_seq (list_update_seq (replicate 257 0) 0 b) 0 bs'), w')))"
    by (rule t [THEN conjunct1, THEN mp, OF prem])
  note t [THEN conjunct2, THEN conjunct2, THEN conjunct2, THEN spec, THEN spec, THEN mp,
      OF ex_failed_read_run, THEN conjunct1, THEN mp, OF prem]
  then show "\<exists>k1 k2. writes (trace (snd (the (stm32_guess_len_cmd ex_frame_stm 0x00 (replicate 257 0) 17
             ex_failed_read_world)))) =
        writes (trace ex_failed_read_world) @ [cmd_frame 0x00] @
        replicate (Suc k1) resync_frame @ [cmd_frame 0x00] @
        replicate (Suc k2) resync_frame @ [cmd_frame 0x00]"
    unfolding ex_failed_read_run option.sel snd_conv .
next
  have frame: "PORT_BYTE \<notin> flags (port ex_frame_stm)" by (simp add: ex_frame_stm_def)
  have buf: "length (replicate 257 (0 :: u8)) = 257" and guess: "(17 :: u32) \<le> 255"
    by simp_all
  let ?w1 = "\<lparr>rx = [Rd_ok (0x11 # replicate 18 0)], wx = [], clock = [],
               trace = [EvWrite [0x00, 0xFF], EvRead 1 (Rd_ok [0x79])]\<rparr>"
  let ?w2 = "\<lparr>rx = [], wx = [], clock = [],
               trace = [EvWrite [0x00, 0xFF], EvRead 1 (Rd_ok [0x79]),
                        EvRead 19 (Rd_ok (0x11 # replicate 18 0))]\<rparr>"
  have cmd1: "stm32_send_command ex_frame_stm 0x00 ex_match_world = Some (STM32_ERR_OK, ?w1)"
    by (simp add: ex_frame_stm_def ex_stm_def ex_match_world_def ex_eval stm32_consts)
  have rd1: "port_read (unat ((17 :: u32) + 2)) ?w1 =
      Some ((PORT_ERR_OK, 0x11 # replicate 18 0), ?w2)"
    by (simp add: port_read_def)
  note t = guess_len_frame_port [OF frame buf guess cmd1 rd1]
  have prem: "PORT_ERR_OK = PORT_ERR_OK \<and> (17 :: u32) = ucast (hd (0x11 # replicate 18 (0 :: u8)))"
    by simp
  show "stm32_guess_len_cmd ex_frame_stm 0x00 (replicate 257 0) 17 ex_match_world =
     Some ((STM32_ERR_OK, list_update_seq (replicate 257 0) 0 (0x11 # replicate 18 0)), ?w2)"
    by (rule t [THEN conjunct2, THEN conjunct2, THEN conjunct1, THEN mp, OF prem])
qed


subsection \<open>Addresses and pages\<close>

lemma ps_next_nonzero: "ps_at ps k \<noteq> 0 \<Longrightarrow> ps_at ps (ps_next ps k) \<noteq> 0"
  by (simp add: ps_next_def)

lemma ps_index_nonzero: "ps_at ps k \<noteq> 0 \<Longrightarrow> ps_at ps (ps_index ps k m) \<noteq> 0"
  by (induction m arbitrary: k) (simp_all add: ps_next_nonzero)

lemma span_snoc: "span ps k (Suc m) = span ps k m + unat (ps_at ps (ps_index ps k m))"
  by (induction m arbitrary: k) simp_all

lemma span_mono: "m \<le> n \<Longrightarrow> span ps k m \<le> span ps k n"
proof (induction n)
  case 0
  then show ?case by simp
next
  case (Suc n)
  then show ?case by (cases "m = Suc n") (auto simp: span_snoc simp del: span.simps)
qed

lemma span_ge: "ps_at ps k \<noteq> 0 \<Longrightarrow> m \<le> span ps k m"
proof (induction m arbitrary: k)
  case 0
  then show ?case by simp
next
  case (Suc m)
  from Suc.prems have "0 < unat (ps_at ps k)" by (simp add: unat_gt_0)
  moreover from Suc.IH [OF ps_next_nonzero [OF Suc.prems]]
  have "m \<le> span ps (ps_next ps k) m" .
  ultimately show ?case by simp
qed

lemma span_strict: "ps_at ps k \<noteq> 0 \<Longrightarrow> span ps k m < span ps k (Suc m)"
  using ps_index_nonzero [of ps k m] by (simp add: span_snoc unat_gt_0 del: span.simps)

lemma span_unique:
  assumes "span ps k m \<le> x" and "x < span ps k (Suc m)"
    and "span ps k n \<le> x" and "x < span ps k (Suc n)"
  shows "m = n"
proof (rule ccontr)
  assume "m \<noteq> n"
  then consider "Suc m \<le> n" | "Suc n \<le> m" by linarith
  then show False
  proof cases
    case 1
    from span_mono [OF 1, of ps k] assms(2,3) show False by simp
  next
    case 2
    from span_mono [OF 2, of ps k] assms(1,4) show False by simp
  qed
qed

lemma page_walk_spec:
  assumes "ps_at ps k \<noteq> 0" and "page + int (unat addr) \<le> INT_MAX"
  shows "\<exists>m r. page_walk ps k addr page = Some (r, page + int m) \<and>
               unat addr = span ps k m + unat r \<and>
               unat r < unat (ps_at ps (ps_index ps k m))"
  using assms
proof (induction "unat addr" arbitrary: k addr page rule: less_induct)
  case less
  show ?case
  proof (cases "addr \<ge> ps_at ps k")
    case True
    let ?s = "ps_at ps k"
    have s: "0 < unat ?s" using less.prems(1) by (simp add: unat_gt_0)
    have sub: "unat (addr - ?s) = unat addr - unat ?s" using True by (simp add: unat_sub)
    have le: "unat ?s \<le> unat addr" using True by (simp add: word_le_nat_alt)
    have lt: "unat (addr - ?s) < unat addr" using s sub le by simp
    have room: "\<not> INT_MAX \<le> page" using less.prems(2) s le by arith
    have bound: "page + 1 + int (unat (addr - ?s)) \<le> INT_MAX"
      unfolding sub using less.prems(2) s le by arith
    from less.hyps [OF lt ps_next_nonzero [OF less.prems(1)] bound]
    obtain m r where
      w: "page_walk ps (ps_next ps k) (addr - ?s) (page + 1) = Some (r, page + 1 + int m)"
      and a: "unat (addr - ?s) = span ps (ps_next ps k) m + unat r"
      and r: "unat r < unat (ps_at ps (ps_index ps (ps_next ps k) m))"
      by blast
    have "page_walk ps k addr page = Some (r, page + int (Suc m))"
      using True room w by (subst page_walk.simps) simp
    moreover have "unat addr = span ps k (Suc m) + unat r" using a sub le by simp
    moreover have "unat r < unat (ps_at ps (ps_index ps k (Suc m)))" using r by simp
    ultimately show ?thesis by blast
  next
    case False
    then have "page_walk ps k addr page = Some (addr, page + int 0)"
      by (subst page_walk.simps) simp
    moreover have "unat addr < unat (ps_at ps (ps_index ps k 0))"
      using False by (simp add: word_le_nat_alt)
    ultimately show ?thesis by (intro exI [of _ 0] exI [of _ addr]) simp
  qed
qed

lemma page_to_addr_loop_spec:
  "page_to_addr_loop ps page i k addr = addr + of_nat (span ps k (nat (page - i)))"
proof (induction ps page i k addr rule: page_to_addr_loop.induct)
  case (1 ps page i k addr)
  show ?case
  proof (cases "i < page")
    case True
    then have n: "nat (page - i) = Suc (nat (page - (i + 1)))" by simp
    from True 1 show ?thesis
      by (subst page_to_addr_loop.simps) (simp add: n)
  next
    case False
    then show ?thesis by (subst page_to_addr_loop.simps) simp
  qed
qed


lemma unat_plus_of_nat:
  "unat (x :: u32) + n < 2 ^ 32 \<Longrightarrow> unat (x + of_nat n) = unat x + n"
  by (simp add: unat_word_ariths unat_of_nat)

lemma fl_ps_ok_first: "fl_ps_ok ps \<Longrightarrow> ps_at ps 0 \<noteq> 0"
  by (auto simp: fl_ps_ok_def ps_at_def)

lemma floor_spec:
  assumes "fl_ps_ok (fl_ps d)" and "unat (fl_end d) - unat (fl_start d) < 2 ^ 31"
    and "fl_start d \<le> a" and "a < fl_end d"
  shows "\<exists>m. flash_addr_to_page_floor d a = Some (int m) \<and>
             span (fl_ps d) 0 m \<le> unat a - unat (fl_start d) \<and>
             unat a - unat (fl_start d) < span (fl_ps d) 0 (Suc m)"
proof -
  have off: "unat (a - fl_start d) = unat a - unat (fl_start d)"
    using assms(3) by (simp add: unat_sub)
  have "unat a < unat (fl_end d)" using assms(4) by (simp add: word_less_nat_alt)
  with assms(2) off have bound: "0 + int (unat (a - fl_start d)) \<le> INT_MAX"
    by (simp add: INT_MAX_def)
  from page_walk_spec [OF fl_ps_ok_first [OF assms(1)] bound]
  obtain m r where w: "page_walk (fl_ps d) 0 (a - fl_start d) 0 = Some (r, int m)"
    and a: "unat (a - fl_start d) = span (fl_ps d) 0 m + unat r"
    and r: "unat r < unat (ps_at (fl_ps d) (ps_index (fl_ps d) 0 m))"
    by auto
  have "flash_addr_to_page_floor d a = Some (int m)"
    using assms(3,4) w by (simp add: flash_addr_to_page_floor_def is_addr_in_flash_def)
  moreover have "span (fl_ps d) 0 m \<le> unat a - unat (fl_start d)" using a off by simp
  moreover have "unat a - unat (fl_start d) < span (fl_ps d) 0 (Suc m)"
    using a r off by (simp add: span_snoc del: span.simps)
  ultimately show ?thesis by blast
qed

lemma flash_page_to_addr_spec:
  "flash_page_to_addr d (int m) = fl_start d + of_nat (span (fl_ps d) 0 m)"
  by (simp add: flash_page_to_addr_def page_to_addr_loop_spec)

lemma ceil_spec:
  assumes "fl_ps_ok (fl_ps d)" and "unat (fl_end d) - unat (fl_start d) < 2 ^ 31"
    and "fl_start d \<le> a" and "a \<le> fl_end d"
  shows "\<exists>m (r :: u32). flash_addr_to_page_ceil d a = Some (if r \<noteq> 0 then int m + 1 else int m) \<and>
             unat a - unat (fl_start d) = span (fl_ps d) 0 m + unat r \<and>
             unat r < unat (ps_at (fl_ps d) (ps_index (fl_ps d) 0 m))"
proof -
  have off: "unat (a - fl_start d) = unat a - unat (fl_start d)"
    using assms(3) by (simp add: unat_sub)
  have ae: "unat a \<le> unat (fl_end d)" using assms(4) by (simp add: word_le_nat_alt)
  with assms(2) off have bound: "0 + int (unat (a - fl_start d)) \<le> INT_MAX"
    by (simp add: INT_MAX_def)
  from page_walk_spec [OF fl_ps_ok_first [OF assms(1)] bound]
  obtain m r where w: "page_walk (fl_ps d) 0 (a - fl_start d) 0 = Some (r, int m)"
    and a: "unat (a - fl_start d) = span (fl_ps d) 0 m + unat r"
    and r: "unat r < unat (ps_at (fl_ps d) (ps_index (fl_ps d) 0 m))"
    by auto
  have "m \<le> span (fl_ps d) 0 m" by (rule span_ge [OF fl_ps_ok_first [OF assms(1)]])
  moreover have "r \<noteq> 0 \<Longrightarrow> 0 < unat r" by (simp add: unat_gt_0)
  ultimately have room: "r \<noteq> 0 \<Longrightarrow> \<not> INT_MAX \<le> int m"
    using a off ae assms(2) by (auto simp: INT_MAX_def)
  have c: "flash_addr_to_page_ceil d a = Some (if r \<noteq> 0 then int m + 1 else int m)"
    using assms(3,4) w room by (simp add: flash_addr_to_page_ceil_def)
  note a' = a [unfolded off]
  show ?thesis
    by (rule exI [of _ m], rule exI [of _ r], intro conjI) (fact c, fact a', fact r)
qed

lemma ceil_fl_end:
  assumes "fl_ps_ok (fl_ps d)" and "unat (fl_end d) - unat (fl_start d) < 2 ^ 31"
    and "fl_start d < fl_end d"
  shows "\<exists>n. flash_addr_to_page_floor d (fl_end d - 1) = Some (int n) \<and>
             flash_addr_to_page_ceil d (fl_end d) = Some (int n + 1)"
proof -
  let ?ps = "fl_ps d"
  let ?e = "fl_end d - 1"
  let ?size = "unat (fl_end d) - unat (fl_start d)"
  have first: "ps_at ?ps 0 \<noteq> 0" by (rule fl_ps_ok_first [OF assms(1)])
  have se: "unat (fl_start d) < unat (fl_end d)" using assms(3) by (simp add: word_less_nat_alt)
  then have e0: "fl_end d \<noteq> 0" by auto
  then have ue: "unat ?e = unat (fl_end d) - 1" by (simp add: unat_minus_one)
  have e_in: "fl_start d \<le> ?e" "?e < fl_end d"
    using se ue e0 by (simp_all add: word_le_nat_alt word_less_nat_alt unat_gt_0)
  from floor_spec [OF assms(1,2) e_in] obtain n where
    fe: "flash_addr_to_page_floor d ?e = Some (int n)"
    and lo: "span ?ps 0 n \<le> unat ?e - unat (fl_start d)"
    and hi: "unat ?e - unat (fl_start d) < span ?ps 0 (Suc n)"
    by blast
  have last: "unat ?e - unat (fl_start d) = ?size - 1" using ue by simp
  have pos: "0 < ?size" using se by simp
  from ceil_spec [OF assms(1,2) less_imp_le [OF assms(3)] order_refl]
  obtain m and r :: u32 where
    c: "flash_addr_to_page_ceil d (fl_end d) = Some (if r \<noteq> 0 then int m + 1 else int m)"
    and a: "?size = span ?ps 0 m + unat r"
    and r: "unat r < unat (ps_at ?ps (ps_index ?ps 0 m))"
    by blast
  have "(if r \<noteq> 0 then int m + 1 else int m) = int n + 1"
  proof (cases "r = 0")
    case False
    then have "0 < unat r" by (simp add: unat_gt_0)
    with a have l: "span ?ps 0 m \<le> ?size - 1" by simp
    from a r pos have h: "?size - 1 < span ?ps 0 (Suc m)"
      by (simp add: span_snoc del: span.simps)
    from span_unique [OF l h lo [unfolded last] hi [unfolded last]] False
    show ?thesis by simp
  next
    case True
    with a pos obtain m' where m: "m = Suc m'" by (cases m) auto
    from a True m have sz: "?size = span ?ps 0 (Suc m')" by simp
    from span_strict [OF first, of m'] sz have l: "span ?ps 0 m' \<le> ?size - 1" by simp
    from sz pos have h: "?size - 1 < span ?ps 0 (Suc m')" by simp
    from span_unique [OF l h lo [unfolded last] hi [unfolded last]] True m
    show ?thesis by simp
  qed
  with c fe show ?thesis by auto
qed

lemma uniform_index: "ps_index [s, 0] 0 m = 0"
  by (induction m) (simp_all add: ps_next_def ps_at_def)

lemma uniform_span: "span [s, 0] 0 m = m * unat s"
  by (induction m) (simp_all add: ps_next_def ps_at_def)

lemma ceil_uniform:
  assumes "fl_ps d = [s, 0]" and "s \<noteq> 0" and "unat (fl_end d) - unat (fl_start d) < 2 ^ 31"
    and "fl_start d \<le> a" and "a \<le> fl_end d"
    and "(unat a - unat (fl_start d)) mod unat s = 0"
  shows "flash_addr_to_page_ceil d a = Some (int ((unat a - unat (fl_start d)) div unat s))"
proof -
  have ok: "fl_ps_ok (fl_ps d)" using assms(1,2) by (simp add: fl_ps_ok_def)
  from ceil_spec [OF ok assms(3,4,5)] obtain m and r :: u32 where
    c: "flash_addr_to_page_ceil d a = Some (if r \<noteq> 0 then int m + 1 else int m)"
    and a0: "unat a - unat (fl_start d) = span (fl_ps d) 0 m + unat r"
    and r0: "unat r < unat (ps_at (fl_ps d) (ps_index (fl_ps d) 0 m))"
    by blast
  from a0 have a: "unat a - unat (fl_start d) = m * unat s + unat r"
    by (simp add: assms(1) uniform_span)
  from r0 have r: "unat r < unat s"
    by (simp add: assms(1) uniform_index ps_at_def)
  from a r assms(6) have "unat r = 0" by (metis mod_less mod_mult_self3)
  then have r0: "r = 0" by (simp add: unat_eq_zero)
  with a r have "m = (unat a - unat (fl_start d)) div unat s" by simp
  with c r0 show ?thesis by simp
qed

text \<open>
  Claim C8, as stated, fails for an address outside the flash range: the address \<open>fl_end\<close> is
  not a flash address (\<^verbatim>\<open>is_addr_in_flash\<close> is false there), and on the concrete device
  \<^verbatim>\<open>flash_addr_to_page_ceil\<close> returns the number of pages, 128, not 0. The test at the head
  of \<^verbatim>\<open>flash_addr_to_page_ceil\<close> is \<^verbatim>\<open>addr >= fl_start && addr <= fl_end\<close>.
\<close>

theorem page_outside_flash_counterexample:
  "\<not> is_addr_in_flash ex_dev (fl_end ex_dev) \<and>
   flash_addr_to_page_ceil ex_dev (fl_end ex_dev) = Some 128 \<and> (128 :: int) \<noteq> 0"
proof -
  have "flash_addr_to_page_ceil ex_dev (fl_end ex_dev) =
      Some (int ((unat (fl_end ex_dev) - unat (fl_start ex_dev)) div unat (0x400 :: u32)))"
    by (rule ceil_uniform) (simp_all add: ex_dev_def)
  then show ?thesis by (simp add: ex_dev_def is_addr_in_flash_def)
qed

text \<open>
  Claim C8, amended. On a device with a well-formed table of page sizes and a flash of less
  than \<open>2 ^ 31\<close> bytes (so that the \<^verbatim>\<open>int\<close> page counter cannot overflow), for every flash
  address \<open>a\<close> with \<open>fl_start \<le> a < fl_end\<close> the page \<open>p\<close> returned by
  \<^verbatim>\<open>flash_addr_to_page_floor\<close> satisfies \<open>flash_page_to_addr p \<le> a\<close>, and
  \<open>a < flash_page_to_addr (p + 1)\<close> unless \<open>a\<close> lies in the trailing page (the page of
  \<open>fl_end - 1\<close>) and the end of that page is not representable in 32 bits; \<open>p + 1\<close> is at most
  \<^verbatim>\<open>INT_MAX\<close>. For every address below \<open>fl_start\<close> or above \<open>fl_end\<close> both
  \<^verbatim>\<open>flash_addr_to_page_floor\<close> and \<^verbatim>\<open>flash_addr_to_page_ceil\<close> return 0. At \<open>fl_end\<close> itself
  the floor is 0, and the ceil is the number of pages of the flash: one more than the page
  of the last flash byte \<open>fl_end - 1\<close> when the flash is not empty, and 0 when it is.
\<close>

theorem page_floor_brackets_address:
  assumes "fl_ps_ok (fl_ps d)" and "unat (fl_end d) - unat (fl_start d) < 2 ^ 31"
  shows "(fl_start d \<le> a \<and> a < fl_end d \<longrightarrow>
           (\<exists>p. flash_addr_to_page_floor d a = Some p \<and> 0 \<le> p \<and> p + 1 \<le> INT_MAX \<and>
                flash_page_to_addr d p \<le> a \<and>
                (flash_addr_to_page_floor d (fl_end d - 1) \<noteq> Some p \<or>
                 unat (fl_start d) + span (fl_ps d) 0 (nat p + 1) < 2 ^ 32 \<longrightarrow>
                   a < flash_page_to_addr d (p + 1)))) \<and>
         (a < fl_start d \<or> fl_end d < a \<longrightarrow>
            flash_addr_to_page_floor d a = Some 0 \<and> flash_addr_to_page_ceil d a = Some 0) \<and>
         flash_addr_to_page_floor d (fl_end d) = Some 0 \<and>
         (fl_start d < fl_end d \<longrightarrow>
            (\<exists>p. flash_addr_to_page_floor d (fl_end d - 1) = Some p \<and> 0 \<le> p \<and>
                 flash_addr_to_page_ceil d (fl_end d) = Some (p + 1))) \<and>
         (fl_start d = fl_end d \<longrightarrow> flash_addr_to_page_ceil d (fl_end d) = Some 0)"
proof (intro conjI impI)
  show "flash_addr_to_page_floor d (fl_end d) = Some 0"
    by (simp add: flash_addr_to_page_floor_def is_addr_in_flash_def)
next
  assume "fl_start d = fl_end d"
  moreover have "page_walk (fl_ps d) 0 0 0 = Some (0, 0)"
    using fl_ps_ok_first [OF assms(1)] by (subst page_walk.simps) simp
  ultimately show "flash_addr_to_page_ceil d (fl_end d) = Some 0"
    by (simp add: flash_addr_to_page_ceil_def)
next
  assume "fl_start d < fl_end d"
  from ceil_fl_end [OF assms this]
  show "\<exists>p. flash_addr_to_page_floor d (fl_end d - 1) = Some p \<and> 0 \<le> p \<and>
           flash_addr_to_page_ceil d (fl_end d) = Some (p + 1)"
    by auto
next
  assume "a < fl_start d \<or> fl_end d < a"
  then show "flash_addr_to_page_floor d a = Some 0" and "flash_addr_to_page_ceil d a = Some 0"
    by (auto simp: flash_addr_to_page_floor_def flash_addr_to_page_ceil_def
          is_addr_in_flash_def)
next
  assume fl: "fl_start d \<le> a \<and> a < fl_end d"
  let ?ps = "fl_ps d"
  let ?off = "unat a - unat (fl_start d)"
  have sa: "unat (fl_start d) \<le> unat a" using fl by (simp add: word_le_nat_alt)
  have a32: "unat a < 2 ^ 32" using unsigned_less [of a, where 'a = nat] by simp
  have ale: "unat a < unat (fl_end d)" using fl by (simp add: word_less_nat_alt)
  from floor_spec [OF assms] fl obtain m where
    f: "flash_addr_to_page_floor d a = Some (int m)"
    and lo: "span ?ps 0 m \<le> ?off" and hi: "?off < span ?ps 0 (Suc m)"
    by blast
  have "m \<le> span ?ps 0 m" by (rule span_ge [OF fl_ps_ok_first [OF assms(1)]])
  with lo ale sa assms(2) have small: "int m + 1 \<le> INT_MAX" by (simp add: INT_MAX_def)
  have "unat (flash_page_to_addr d (int m)) = unat (fl_start d) + span ?ps 0 m"
    unfolding flash_page_to_addr_spec using lo sa a32 by (intro unat_plus_of_nat) simp
  then have below: "flash_page_to_addr d (int m) \<le> a"
    using lo sa by (simp add: word_le_nat_alt)
  have above: "a < flash_page_to_addr d (int m + 1)"
    if nw: "unat (fl_start d) + span ?ps 0 (m + 1) < 2 ^ 32"
  proof -
    have "int m + 1 = int (Suc m)" by simp
    then have "unat (flash_page_to_addr d (int m + 1)) = unat (fl_start d) + span ?ps 0 (Suc m)"
      unfolding flash_page_to_addr_spec using nw
      by (simp only: flash_page_to_addr_spec) (intro unat_plus_of_nat, simp)
    then show ?thesis using hi sa by (simp add: word_less_nat_alt)
  qed
  have nowrap: "unat (fl_start d) + span ?ps 0 (m + 1) < 2 ^ 32"
    if last: "flash_addr_to_page_floor d (fl_end d - 1) \<noteq> Some (int m)"
  proof -
    let ?e = "fl_end d - 1"
    have e0: "fl_end d \<noteq> 0" using fl by auto
    then have ue: "unat ?e = unat (fl_end d) - 1" by (simp add: unat_minus_one)
    from ale have ae: "unat a \<le> unat ?e" using ue by arith
    have e_in: "fl_start d \<le> ?e" "?e < fl_end d"
      using sa ae ue e0 by (simp_all add: word_le_nat_alt word_less_nat_alt unat_gt_0)
    from floor_spec [OF assms e_in] obtain n where
      fe: "flash_addr_to_page_floor d ?e = Some (int n)"
      and loe: "span ?ps 0 n \<le> unat ?e - unat (fl_start d)"
      and hie: "unat ?e - unat (fl_start d) < span ?ps 0 (Suc n)"
      by blast
    from last fe have ne: "m \<noteq> n" by auto
    have "\<not> n < m"
    proof
      assume "n < m"
      then have "span ?ps 0 (Suc n) \<le> span ?ps 0 m" by (intro span_mono) simp
      with lo hie ae show False by simp
    qed
    with ne have "Suc m \<le> n" by simp
    then have "span ?ps 0 (Suc m) \<le> span ?ps 0 n" by (rule span_mono)
    with loe have "unat (fl_start d) + span ?ps 0 (Suc m) \<le> unat ?e"
      using sa ae by simp
    moreover have "unat ?e < 2 ^ 32" using unsigned_less [of ?e, where 'a = nat] by simp
    ultimately show ?thesis by simp
  qed
  show "\<exists>p. flash_addr_to_page_floor d a = Some p \<and> 0 \<le> p \<and> p + 1 \<le> INT_MAX \<and>
            flash_page_to_addr d p \<le> a \<and>
            (flash_addr_to_page_floor d (fl_end d - 1) \<noteq> Some p \<or>
             unat (fl_start d) + span (fl_ps d) 0 (nat p + 1) < 2 ^ 32 \<longrightarrow>
               a < flash_page_to_addr d (p + 1))"
    using f small below above nowrap by (intro exI [of _ "int m"]) auto
qed

theorem page_floor_brackets_address_witness:
  "fl_ps_ok (fl_ps ex_dev) \<and> unat (fl_end ex_dev) - unat (fl_start ex_dev) < 2 ^ 31 \<and>
   fl_start ex_dev \<le> 0x08000C04 \<and> 0x08000C04 < fl_end ex_dev \<and>
   flash_addr_to_page_floor ex_dev 0x08000C04 = Some 3 \<and>
   flash_page_to_addr ex_dev 3 \<le> 0x08000C04 \<and>
   0x08000C04 < flash_page_to_addr ex_dev (3 + 1) \<and>
   flash_addr_to_page_floor ex_dev 0x08020004 = Some 0 \<and>
   flash_addr_to_page_ceil ex_dev 0x08020004 = Some 0 \<and>
   fl_start ex_dev < fl_end ex_dev \<and>
   flash_addr_to_page_floor ex_dev (fl_end ex_dev - 1) = Some 127 \<and>
   flash_addr_to_page_ceil ex_dev (fl_end ex_dev) = Some (127 + 1)"
proof -
  have ok: "fl_ps_ok (fl_ps ex_dev)" by (simp add: fl_ps_ok_def ex_dev_def)
  have sz: "unat (fl_end ex_dev) - unat (fl_start ex_dev) < 2 ^ 31" by (simp add: ex_dev_def)
  have fl: "fl_start ex_dev \<le> 0x08000C04 \<and> 0x08000C04 < fl_end ex_dev"
    by (simp add: ex_dev_def)
  have ne: "fl_start ex_dev < fl_end ex_dev" by (simp add: ex_dev_def)
  have out: "0x08020004 < fl_start ex_dev \<or> fl_end ex_dev < 0x08020004"
    by (simp add: ex_dev_def)
  have f: "flash_addr_to_page_floor ex_dev 0x08000C04 = Some 3"
    by (simp add: flash_addr_to_page_floor_def is_addr_in_flash_def ex_dev_def
          page_walk.simps ps_at_def ps_next_def INT_MAX_def)
  have c: "flash_addr_to_page_ceil ex_dev (fl_end ex_dev) = Some 128"
  proof -
    have "flash_addr_to_page_ceil ex_dev (fl_end ex_dev) =
        Some (int ((unat (fl_end ex_dev) - unat (fl_start ex_dev)) div unat (0x400 :: u32)))"
      by (rule ceil_uniform) (simp_all add: ex_dev_def)
    then show ?thesis by (simp add: ex_dev_def)
  qed
  have nw: "unat (fl_start ex_dev) + span (fl_ps ex_dev) 0 (nat 3 + 1) < 2 ^ 32"
    by (simp add: ex_dev_def uniform_span)
  from page_floor_brackets_address [OF ok sz, of "0x08000C04", THEN conjunct1, THEN mp, OF fl]
  obtain p where p: "flash_addr_to_page_floor ex_dev 0x08000C04 = Some p"
    and below: "flash_page_to_addr ex_dev p \<le> 0x08000C04"
    and above: "flash_addr_to_page_floor ex_dev (fl_end ex_dev - 1) \<noteq> Some p \<or>
        unat (fl_start ex_dev) + span (fl_ps ex_dev) 0 (nat p + 1) < 2 ^ 32 \<longrightarrow>
        0x08000C04 < flash_page_to_addr ex_dev (p + 1)"
    by blast
  from p f have p3: "p = 3" by simp
  from below above nw
  have "flash_page_to_addr ex_dev 3 \<le> 0x08000C04 \<and>
      0x08000C04 < flash_page_to_addr ex_dev (3 + 1)"
    unfolding p3 by blast
  moreover from page_floor_brackets_address [OF ok sz, of "0x08020004", THEN conjunct2,
      THEN conjunct1, THEN mp, OF out]
  have "flash_addr_to_page_floor ex_dev 0x08020004 = Some 0 \<and>
      flash_addr_to_page_ceil ex_dev 0x08020004 = Some 0" .
  moreover from page_floor_brackets_address [OF ok sz, of 0, THEN conjunct2,
      THEN conjunct2, THEN conjunct2, THEN conjunct1, THEN mp, OF ne]
  obtain q where "flash_addr_to_page_floor ex_dev (fl_end ex_dev - 1) = Some q"
    and "flash_addr_to_page_ceil ex_dev (fl_end ex_dev) = Some (q + 1)"
    by blast
  with c have "flash_addr_to_page_floor ex_dev (fl_end ex_dev - 1) = Some 127 \<and>
      flash_addr_to_page_ceil ex_dev (fl_end ex_dev) = Some (127 + 1)"
    by auto
  ultimately show ?thesis using ok sz fl ne f by simp
qed


subsection \<open>Mass erase on a device without the mass-erase command\<close>
























lemma list_all_conjunct2: "list_all (\<lambda>x. P x \<and> Q x) xs \<Longrightarrow> list_all Q xs"
  by (induction xs) simp_all






















end
